theory Spec2Isabelle
  imports Complex_Main "HOL-Library.Word" "HOL-Library.Sublist" "HOL-Library.Log_Nat"
begin

section \<open>JavaScript values\<close>

text \<open>
  The server (\<^verbatim>\<open>src/unnamed/part_000\<close>) is an Express handler for
  \<^verbatim>\<open>POST /api/analyze-image\<close>. A JavaScript string is a sequence of UTF-16 code units
  and \<^verbatim>\<open>.length\<close> counts code units, so a string is a list of 16-bit words.
  \<open>js\<close> writes an ASCII literal as such a string.
\<close>

type_synonym jschar = "16 word"
type_synonym jsstring = "jschar list"

definition js :: "string \<Rightarrow> jsstring" where
  "js s = map of_char s"

text \<open>
  A number that \<^verbatim>\<open>JSON.parse\<close> can produce is a finite double (with its mathematical
  value; \<open>-0\<close> and \<open>0\<close> are both \<open>Finite 0\<close>) or an infinity (a literal that overflows).
\<close>

datatype jsnum = Finite rat | PosInfinity | NegInfinity

datatype jsval =
    JUndefined
  | JNull
  | JBool bool
  | JNum jsnum
  | JStr jsstring
  | JArr "jsval list"
  | JObj "(jsstring \<times> jsval) list"

text \<open>\<^verbatim>\<open>!v\<close> is \<open>\<not> truthy v\<close>: ToBoolean of the language.\<close>

fun truthy :: "jsval \<Rightarrow> bool" where
  "truthy JUndefined = False"
| "truthy JNull = False"
| "truthy (JBool b) = b"
| "truthy (JNum n) = (n \<noteq> Finite 0)"
| "truthy (JStr s) = (s \<noteq> [])"
| "truthy (JArr xs) = True"
| "truthy (JObj kvs) = True"

fun isArray :: "jsval \<Rightarrow> bool" where
  "isArray (JArr xs) = True"
| "isArray v = False"

text \<open>
  The parts of the JavaScript runtime that the handler calls and that are not code of the
  repository are parameters of the model: \<^verbatim>\<open>JSON.parse\<close> (\<open>None\<close> when it throws), and
  the coercing comparison \<^verbatim>\<open>v > n\<close> for a \<open>v\<close> that is not a number (\<open>None\<close> when the
  conversion to a primitive throws).
\<close>

record runtime =
  JSON_parse :: "jsstring \<Rightarrow> jsval option"
  coerce_gt :: "jsval \<Rightarrow> int \<Rightarrow> bool option"

datatype js_error =
    ApiError
  | InvalidResponseFormat
  | FailedToParse
  | InvalidResponseStructure
  | TypeError

section \<open>Numbers\<close>

text \<open>
  A number of the language is an IEEE binary64 value, and an arithmetic operation returns
  the number nearest to the exact result. \<open>roundBinary64 x\<close> is the number nearest to the
  rational \<open>x\<close>: the spacing of the numbers around \<open>x\<close> is \<open>2 ^ (e - 52)\<close> for
  \<open>2 ^ e \<le> \<bar>x\<bar> < 2 ^ (e + 1)\<close> (and \<open>2 ^ - 1074\<close> below \<open>2 ^ - 1022\<close>), a tie goes to the even
  multiple of the spacing, and a result of magnitude \<open>2 ^ 1024\<close> is an infinity.
\<close>

definition pow2 :: "int \<Rightarrow> rat" where
  "pow2 z = (if 0 \<le> z then 2 ^ nat z else 1 / 2 ^ nat (- z))"

text \<open>For \<open>a > 0\<close>: the \<open>e\<close> with \<open>2 ^ e \<le> a < 2 ^ (e + 1)\<close>.\<close>

definition floorLog2 :: "rat \<Rightarrow> int" where
  "floorLog2 a =
     (case quotient_of a of
        (p, q) \<Rightarrow> if pow2 (bitlen p - bitlen q) \<le> a then bitlen p - bitlen q
                  else bitlen p - bitlen q - 1)"

definition roundBinary64 :: "rat \<Rightarrow> jsnum" where
  "roundBinary64 x =
     (if x = 0 then Finite 0
      else
        (let a = \<bar>x\<bar>;
             ulp = pow2 (max (floorLog2 a) (- 1022) - 52);
             q = \<lfloor>a / ulp\<rfloor>;
             rest = a / ulp - of_int q;
             m = of_int (if 1 / 2 < rest \<or> (rest = 1 / 2 \<and> odd q) then q + 1 else q) * ulp
         in if 2 ^ 1024 \<le> m then (if x < 0 then NegInfinity else PosInfinity)
            else Finite (if x < 0 then - m else m)))"

section \<open>String operations\<close>

text \<open>
  The class \<^verbatim>\<open>\s\<close> of a regular expression and the characters removed by
  \<^verbatim>\<open>String.prototype.trim\<close> are the same set: WhiteSpace and LineTerminator.
\<close>

definition isWhiteSpace :: "jschar \<Rightarrow> bool" where
  "isWhiteSpace c \<longleftrightarrow>
     c = 0x09 \<or> c = 0x0A \<or> c = 0x0B \<or> c = 0x0C \<or> c = 0x0D \<or> c = 0x20 \<or> c = 0xA0 \<or>
     c = 0x1680 \<or> (0x2000 \<le> c \<and> c \<le> 0x200A) \<or> c = 0x2028 \<or> c = 0x2029 \<or>
     c = 0x202F \<or> c = 0x205F \<or> c = 0x3000 \<or> c = 0xFEFF"

definition trim :: "jsstring \<Rightarrow> jsstring" where
  "trim s = rev (dropWhile isWhiteSpace (rev (dropWhile isWhiteSpace s)))"

text \<open>The class \<^verbatim>\<open>[#\s]\<close>.\<close>

definition isHashOrSpace :: "jschar \<Rightarrow> bool" where
  "isHashOrSpace c \<longleftrightarrow> c = 0x23 \<or> isWhiteSpace c"

text \<open>
  \<^verbatim>\<open>t.replace(/[#\s]+/g, ' ')\<close>: scanning from the left, every maximal run of characters
  of the class is replaced by one space.
\<close>

function replaceHashSpace :: "jsstring \<Rightarrow> jsstring" where
  "replaceHashSpace [] = []"
| "replaceHashSpace (c # cs) =
     (if isHashOrSpace c then 0x20 # replaceHashSpace (dropWhile isHashOrSpace cs)
      else c # replaceHashSpace cs)"
  by pat_completeness auto
termination
  by (relation "measure length") (auto simp: length_dropWhile_le less_Suc_eq_le)

text \<open>\<^verbatim>\<open>s.substring(0, n)\<close>: a negative end counts as 0, one beyond the length as the length.\<close>

definition substring0 :: "jsstring \<Rightarrow> int \<Rightarrow> jsstring" where
  "substring0 s n = take (nat n) s"

text \<open>\<^verbatim>\<open>xs.join(sep)\<close> on an array of strings.\<close>

fun join :: "jsstring \<Rightarrow> jsstring list \<Rightarrow> jsstring" where
  "join sep [] = []"
| "join sep [x] = x"
| "join sep (x # y # ys) = x @ sep @ join sep (y # ys)"

section \<open>Conversion to a number\<close>

text \<open>
  The numeric value of a string (\<^verbatim>\<open>StringToNumber\<close>): surrounding whitespace is dropped;
  the empty string is 0; \<^verbatim>\<open>0x\<close>, \<^verbatim>\<open>0o\<close> and \<^verbatim>\<open>0b\<close> (either case) start an unsigned
  hexadecimal, octal or binary integer; otherwise the string is an optional sign followed
  by \<^verbatim>\<open>Infinity\<close> or by a decimal literal (digits with an optional fraction, or a fraction
  alone, and an optional exponent). The value is rounded to a number. Any other string is
  not a number.
\<close>

datatype conversion = Throws | NotANumber | Number jsnum

definition digitOf :: "jschar \<Rightarrow> int option" where
  "digitOf c =
     (if 0x30 \<le> c \<and> c \<le> 0x39 then Some (uint c - 0x30)
      else if 0x61 \<le> c \<and> c \<le> 0x66 then Some (uint c - 0x61 + 10)
      else if 0x41 \<le> c \<and> c \<le> 0x46 then Some (uint c - 0x41 + 10)
      else None)"

definition isDigitOf :: "int \<Rightarrow> jschar \<Rightarrow> bool" where
  "isDigitOf radix c = (case digitOf c of Some v \<Rightarrow> v < radix | None \<Rightarrow> False)"

definition digitsValue :: "int \<Rightarrow> jsstring \<Rightarrow> int" where
  "digitsValue radix ds =
     foldl (\<lambda>acc c. acc * radix + (case digitOf c of Some v \<Rightarrow> v | None \<Rightarrow> 0)) 0 ds"

definition pow10 :: "int \<Rightarrow> rat" where
  "pow10 z = (if 0 \<le> z then 10 ^ nat z else 1 / 10 ^ nat (- z))"

text \<open>The exponent part that ends a decimal literal (0 when there is none).\<close>

definition exponentPart :: "jsstring \<Rightarrow> int option" where
  "exponentPart r =
     (case r of
        [] \<Rightarrow> Some 0
      | c # r' \<Rightarrow>
          if c = 0x65 \<or> c = 0x45 then
            (let negative = (r' \<noteq> [] \<and> hd r' = 0x2D);
                 ds = (if r' \<noteq> [] \<and> (hd r' = 0x2B \<or> hd r' = 0x2D) then tl r' else r')
             in if ds \<noteq> [] \<and> list_all (isDigitOf 10) ds
                then Some (if negative then - digitsValue 10 ds else digitsValue 10 ds)
                else None)
          else None)"

text \<open>The exact value of an unsigned decimal literal.\<close>

definition unsignedDecimal :: "jsstring \<Rightarrow> rat option" where
  "unsignedDecimal u =
     (let ip = takeWhile (isDigitOf 10) u;
          r1 = dropWhile (isDigitOf 10) u;
          dot = (r1 \<noteq> [] \<and> hd r1 = 0x2E);
          fp = (if dot then takeWhile (isDigitOf 10) (tl r1) else []);
          r2 = (if dot then dropWhile (isDigitOf 10) (tl r1) else r1)
      in if ip = [] \<and> fp = [] then None
         else (case exponentPart r2 of
                 None \<Rightarrow> None
               | Some e \<Rightarrow>
                   Some (of_int (digitsValue 10 (ip @ fp)) * pow10 (e - int (length fp)))))"

definition signedDecimal :: "jsstring \<Rightarrow> conversion" where
  "signedDecimal t =
     (let negative = (t \<noteq> [] \<and> hd t = 0x2D);
          u = (if t \<noteq> [] \<and> (hd t = 0x2B \<or> hd t = 0x2D) then tl t else t)
      in if u = js ''Infinity'' then Number (if negative then NegInfinity else PosInfinity)
         else (case unsignedDecimal u of
                 None \<Rightarrow> NotANumber
               | Some v \<Rightarrow> Number (roundBinary64 (if negative then - v else v))))"

definition radixLiteral :: "int \<Rightarrow> jsstring \<Rightarrow> conversion" where
  "radixLiteral radix ds =
     (if ds \<noteq> [] \<and> list_all (isDigitOf radix) ds
      then Number (roundBinary64 (of_int (digitsValue radix ds)))
      else NotANumber)"

definition stringToNumber :: "jsstring \<Rightarrow> conversion" where
  "stringToNumber s =
     (case trim s of
        [] \<Rightarrow> Number (Finite 0)
      | [a] \<Rightarrow> signedDecimal [a]
      | a # b # ds \<Rightarrow>
          if a = 0x30 \<and> (b = 0x78 \<or> b = 0x58) then radixLiteral 16 ds
          else if a = 0x30 \<and> (b = 0x6F \<or> b = 0x4F) then radixLiteral 8 ds
          else if a = 0x30 \<and> (b = 0x62 \<or> b = 0x42) then radixLiteral 2 ds
          else signedDecimal (a # b # ds))"

text \<open>
  The conversion of a JSON value to a number. An array is converted through
  \<^verbatim>\<open>join(",")\<close>: the empty array gives the empty string, an array of one element the string
  of that element (\<open>null\<close> gives the empty string, and the string of a number converts back
  to that number), a longer array a string with a comma, which is not a number. An object
  is converted through \<^verbatim>\<open>Object.prototype.toString\<close> to a string that is not a number,
  unless it has a property named \<open>toString\<close> of its own, which is not callable: then the
  conversion throws.
\<close>

fun throwsToString :: "jsval \<Rightarrow> bool" where
  "throwsToString (JObj kvs) = (js ''toString'' \<in> fst ` set kvs)"
| "throwsToString (JArr xs) = (\<exists>x \<in> set xs. throwsToString x)"
| "throwsToString v = False"

fun toNumber :: "jsval \<Rightarrow> conversion" where
  "toNumber JUndefined = NotANumber"
| "toNumber JNull = Number (Finite 0)"
| "toNumber (JBool b) = Number (Finite (if b then 1 else 0))"
| "toNumber (JNum n) = Number n"
| "toNumber (JStr s) = stringToNumber s"
| "toNumber (JObj kvs) = (if js ''toString'' \<in> fst ` set kvs then Throws else NotANumber)"
| "toNumber (JArr []) = Number (Finite 0)"
| "toNumber (JArr [JUndefined]) = Number (Finite 0)"
| "toNumber (JArr [JNull]) = Number (Finite 0)"
| "toNumber (JArr [JBool b]) = NotANumber"
| "toNumber (JArr [JNum n]) = Number n"
| "toNumber (JArr [JStr s]) = stringToNumber s"
| "toNumber (JArr [JArr ys]) = toNumber (JArr ys)"
| "toNumber (JArr [JObj kvs]) = (if js ''toString'' \<in> fst ` set kvs then Throws else NotANumber)"
| "toNumber (JArr (x # y # zs)) =
     (if \<exists>v \<in> set (x # y # zs). throwsToString v then Throws else NotANumber)"

text \<open>\<^verbatim>\<open>v > n\<close> for an integer \<open>n\<close>: \<open>None\<close> when the conversion throws; NaN compares false.\<close>

definition jsGreater :: "jsval \<Rightarrow> int \<Rightarrow> bool option" where
  "jsGreater v n =
     (case toNumber v of
        Throws \<Rightarrow> None
      | NotANumber \<Rightarrow> Some False
      | Number (Finite q) \<Rightarrow> Some (of_int n < q)
      | Number PosInfinity \<Rightarrow> Some True
      | Number NegInfinity \<Rightarrow> Some False)"

section \<open>JSON extraction\<close>

text \<open>
  \<^verbatim>\<open>text.match(/\{[\s\S]*\}/)\<close>. The matcher tries each start position from the left. At a
  start position it needs \<open>{\<close>, then \<^verbatim>\<open>[\s\S]*\<close> (any code unit) takes as much as it can
  and gives characters back until \<open>}\<close> follows: \<open>starThenClose\<close> first tries to consume one
  more character and only when that fails tries to end the match here.
\<close>

fun starThenClose :: "jsstring \<Rightarrow> jsstring option" where
  "starThenClose [] = None"
| "starThenClose (c # cs) =
     (case starThenClose cs of
        Some m \<Rightarrow> Some (c # m)
      | None \<Rightarrow> if c = 0x7D then Some [c] else None)"

fun jsonMatch :: "jsstring \<Rightarrow> jsstring option" where
  "jsonMatch [] = None"
| "jsonMatch (c # cs) =
     (if c = 0x7B then
        (case starThenClose cs of
           Some m \<Rightarrow> Some (c # m)
         | None \<Rightarrow> jsonMatch cs)
      else jsonMatch cs)"

section \<open>Validation and field fitting\<close>

text \<open>
  \<^verbatim>\<open>const { title, description, tags } = geminiResult\<close>: a property that is absent reads as
  \<open>undefined\<close>; destructuring \<open>null\<close> or \<open>undefined\<close> throws.
\<close>

definition getProp :: "(jsstring \<times> jsval) list \<Rightarrow> string \<Rightarrow> jsval" where
  "getProp kvs k = (case map_of kvs (js k) of Some v \<Rightarrow> v | None \<Rightarrow> JUndefined)"

fun destructure :: "jsval \<Rightarrow> js_error + (jsval \<times> jsval \<times> jsval)" where
  "destructure JUndefined = Inl TypeError"
| "destructure JNull = Inl TypeError"
| "destructure (JObj kvs) = Inr (getProp kvs ''title'', getProp kvs ''description'', getProp kvs ''tags'')"
| "destructure v = Inr (JUndefined, JUndefined, JUndefined)"

text \<open>The guard \<^verbatim>\<open>if (!title || !description || !Array.isArray(tags))\<close>.\<close>

definition invalidStructure :: "jsval \<Rightarrow> jsval \<Rightarrow> jsval \<Rightarrow> bool" where
  "invalidStructure t d tg \<longleftrightarrow> \<not> truthy t \<or> \<not> truthy d \<or> \<not> isArray tg"

text \<open>
  \<^verbatim>\<open>v.length > limit ? v.substring(0, limit - 3) + '...' : v\<close>. A number or a boolean has
  no \<open>length\<close> (\<open>undefined > limit\<close> is false); an array or an object has no \<open>substring\<close>,
  so taking the first branch throws.
\<close>

fun fitField :: "runtime \<Rightarrow> jsval \<Rightarrow> int \<Rightarrow> js_error + jsval" where
  "fitField rt (JStr s) limit =
     Inr (JStr (if int (length s) > limit then substring0 s (limit - 3) @ js ''...'' else s))"
| "fitField rt (JArr xs) limit =
     (if int (length xs) > limit then Inl TypeError else Inr (JArr xs))"
| "fitField rt (JObj kvs) limit =
     (case map_of kvs (js ''length'') of
        None \<Rightarrow> Inr (JObj kvs)
      | Some (JNum (Finite q)) \<Rightarrow> if q > of_int limit then Inl TypeError else Inr (JObj kvs)
      | Some (JNum PosInfinity) \<Rightarrow> Inl TypeError
      | Some (JNum NegInfinity) \<Rightarrow> Inr (JObj kvs)
      | Some v \<Rightarrow>
          (case coerce_gt rt v limit of
             Some False \<Rightarrow> Inr (JObj kvs)
           | _ \<Rightarrow> Inl TypeError))"
| "fitField rt (JNum n) limit = Inr (JNum n)"
| "fitField rt (JBool b) limit = Inr (JBool b)"
| "fitField rt JNull limit = Inl TypeError"
| "fitField rt JUndefined limit = Inl TypeError"

text \<open>
  \<^verbatim>\<open>tags.filter(t => typeof t === 'string' && t.trim().length > 0)\<close>, then
  \<^verbatim>\<open>.map(t => t.replace(/[#\s]+/g, ' ').trim())\<close>.
\<close>

fun filterTags :: "jsval list \<Rightarrow> jsstring list" where
  "filterTags [] = []"
| "filterTags (JStr s # ts) = (if length (trim s) > 0 then s # filterTags ts else filterTags ts)"
| "filterTags (v # ts) = filterTags ts"

definition normalizeTag :: "jsstring \<Rightarrow> jsstring" where
  "normalizeTag t = trim (replaceHashSpace t)"

definition normalizedTags :: "jsval list \<Rightarrow> jsstring list" where
  "normalizedTags ts = map normalizeTag (filterTags ts)"

text \<open>
  The accumulation loop: \<open>i\<close> is the index of the tag at the head of the remaining list,
  \<open>finalTags\<close> and \<open>currentLength\<close> are the loop's variables; \<^verbatim>\<open>break\<close> returns.
\<close>

fun accumulate :: "int \<Rightarrow> nat \<Rightarrow> jsstring list \<Rightarrow> jsstring list \<Rightarrow> int \<Rightarrow> jsstring list" where
  "accumulate tagsLength i [] finalTags currentLength = finalTags"
| "accumulate tagsLength i (tag # rest) finalTags currentLength =
     (let separatorLength = (if i = 0 then 0 else 2) in
      if currentLength + separatorLength + int (length tag) \<le> tagsLength
      then accumulate tagsLength (Suc i) rest (finalTags @ [tag])
             (currentLength + separatorLength + int (length tag))
      else finalTags)"

definition finalTags :: "int \<Rightarrow> jsval list \<Rightarrow> jsstring list" where
  "finalTags tagsLength ts = accumulate tagsLength 0 (normalizedTags ts) [] 0"

record analysis_result =
  title :: jsval
  description :: jsval
  tags :: "jsstring list"

text \<open>Lines 108 to 134: the field fitter, on the three destructured values.\<close>

definition fieldFitter ::
  "runtime \<Rightarrow> jsval \<Rightarrow> jsval \<Rightarrow> jsval list \<Rightarrow> int \<Rightarrow> int \<Rightarrow> int \<Rightarrow> js_error + analysis_result" where
  "fieldFitter rt t d ts titleLength descriptionLength tagsLength =
     (case fitField rt t titleLength of
        Inl e \<Rightarrow> Inl e
      | Inr finalTitle \<Rightarrow>
          (case fitField rt d descriptionLength of
             Inl e \<Rightarrow> Inl e
           | Inr finalDescription \<Rightarrow>
               Inr \<lparr>title = finalTitle, description = finalDescription,
                    tags = finalTags tagsLength ts\<rparr>))"

text \<open>
  Lines 101 to 134, on the value that \<^verbatim>\<open>JSON.parse\<close> returned: destructure, validate,
  fit.
\<close>

definition validateAndFit ::
  "runtime \<Rightarrow> jsval \<Rightarrow> int \<Rightarrow> int \<Rightarrow> int \<Rightarrow> js_error + analysis_result" where
  "validateAndFit rt geminiResult titleLen descriptionLen tagsLen =
     (case destructure geminiResult of
        Inl e \<Rightarrow> Inl e
      | Inr (t, d, tg) \<Rightarrow>
          if invalidStructure t d tg then Inl InvalidResponseStructure
          else (case tg of
                  JArr ts \<Rightarrow> fieldFitter rt t d ts titleLen descriptionLen tagsLen
                | _ \<Rightarrow> Inl InvalidResponseStructure))"

text \<open>
  The body of the inner \<^verbatim>\<open>try\<close> from the matched text on (lines 93 to 134): the match is
  handed to \<^verbatim>\<open>JSON.parse\<close>; when that throws, the handler throws its parse error.
\<close>

definition parseAndFit ::
  "runtime \<Rightarrow> jsstring \<Rightarrow> int \<Rightarrow> int \<Rightarrow> int \<Rightarrow> js_error + analysis_result" where
  "parseAndFit rt m titleLen descriptionLen tagsLen =
     (case JSON_parse rt m of
        None \<Rightarrow> Inl FailedToParse
      | Some geminiResult \<Rightarrow> validateAndFit rt geminiResult titleLen descriptionLen tagsLen)"

text \<open>Lines 88 to 91, then the rest: what the handler does with the completion text.\<close>

definition shapeCompletion ::
  "runtime \<Rightarrow> jsstring \<Rightarrow> int \<Rightarrow> int \<Rightarrow> int \<Rightarrow> js_error + analysis_result" where
  "shapeCompletion rt text titleLen descriptionLen tagsLen =
     (case jsonMatch text of
        None \<Rightarrow> Inl InvalidResponseFormat
      | Some m \<Rightarrow> parseAndFit rt m titleLen descriptionLen tagsLen)"

section \<open>Fallback and the endpoint\<close>

definition fallbackTruncate :: "jsstring \<Rightarrow> int \<Rightarrow> jsstring" where
  "fallbackTruncate s limit =
     (if int (length s) > limit then substring0 s (limit - 3) @ js ''...'' else s)"

text \<open>The object literal of the \<^verbatim>\<open>catch\<close> block (lines 146 to 150), then its two truncations.\<close>

definition fallbackTitle :: "int \<Rightarrow> jsstring" where
  "fallbackTitle titleLength =
     js ''Image Analysis ('' @
     (if titleLength > 30 then js ''Processing Complete'' else js ''Analyzed'') @ js '')''"

definition fallbackDescription :: jsstring where
  "fallbackDescription =
     js ''The image has been processed and analyzed with detailed consideration of visual elements, composition, colors, and context.''"

definition fallbackTags :: "jsstring list" where
  "fallbackTags = [js ''Image Analysis'', js ''Visual Processing'', js ''AI Detection'']"

definition fallbackResult :: "int \<Rightarrow> int \<Rightarrow> analysis_result" where
  "fallbackResult titleLength descriptionLength =
     \<lparr>title = JStr (fallbackTruncate (fallbackTitle titleLength) titleLength),
      description = JStr (fallbackTruncate fallbackDescription descriptionLength),
      tags = fallbackTags\<rparr>"

record request_body =
  image :: jsval
  mimeType :: jsval
  titleLength :: int
  descriptionLength :: int
  tagsLength :: int

text \<open>
  What \<^verbatim>\<open>model.generateContent\<close> is called with: the inline data and the generation
  config (the prompt text is not modelled).
\<close>

record generate_call =
  inlineData :: jsval
  inlineMimeType :: jsstring
  maxOutputTokens :: jsnum
  temperature :: rat

datatype response =
    Status400 jsstring
  | Status200 analysis_result
  | Status500

definition safeMime :: "jsval \<Rightarrow> jsstring" where
  "safeMime m =
     (case m of
        JStr s \<Rightarrow> if take 6 s = js ''image/'' then s else js ''image/jpeg''
      | _ \<Rightarrow> js ''image/jpeg'')"

text \<open>
  \<^verbatim>\<open>Math.max(512, Math.ceil((descriptionLength + titleLength) / 2) + 256)\<close> for limits that
  are integers: the two additions round to a number; halving a number and \<^verbatim>\<open>Math.ceil\<close>
  are exact.
\<close>

definition generationConfig_maxOutputTokens :: "int \<Rightarrow> int \<Rightarrow> jsnum" where
  "generationConfig_maxOutputTokens titleLen descriptionLen =
     (case roundBinary64 (of_int descriptionLen + of_int titleLen) of
        Finite s \<Rightarrow>
          (case roundBinary64 (of_int \<lceil>s / 2\<rceil> + 256) of
             Finite v \<Rightarrow> Finite (max 512 v)
           | PosInfinity \<Rightarrow> PosInfinity
           | NegInfinity \<Rightarrow> Finite 512)
      | PosInfinity \<Rightarrow> PosInfinity
      | NegInfinity \<Rightarrow> Finite 512)"

definition generateCall :: "request_body \<Rightarrow> generate_call" where
  "generateCall b =
     \<lparr>inlineData = image b, inlineMimeType = safeMime (mimeType b),
      maxOutputTokens = generationConfig_maxOutputTokens (titleLength b) (descriptionLength b),
      temperature = 9 / 10\<rparr>"

text \<open>
  The handler. \<open>gemini\<close> is the inference service: the text of its response to a call, or
  \<open>None\<close> when the call or reading the response throws. The request body is \<open>None\<close> when
  \<^verbatim>\<open>req.body\<close> is undefined (destructuring it throws, the outer \<^verbatim>\<open>catch\<close> answers 500).
  The result is the list of calls issued to the service and the response sent.
\<close>

definition analyzeImage ::
  "runtime \<Rightarrow> (generate_call \<Rightarrow> jsstring option) \<Rightarrow> request_body option
     \<Rightarrow> generate_call list \<times> response" where
  "analyzeImage rt gemini body =
     (case body of
        None \<Rightarrow> ([], Status500)
      | Some b \<Rightarrow>
          if \<not> truthy (image b) then ([], Status400 (js ''No image provided''))
          else
            ([generateCall b],
             (case (case gemini (generateCall b) of
                      None \<Rightarrow> Inl ApiError
                    | Some text \<Rightarrow>
                        shapeCompletion rt text (titleLength b) (descriptionLength b) (tagsLength b)) of
                Inr finalResult \<Rightarrow> Status200 finalResult
              | Inl apiError \<Rightarrow> Status200 (fallbackResult (titleLength b) (descriptionLength b)))))"

section \<open>Reference notions\<close>

text \<open>
  The notions the properties below are stated with: the first and the last occurrence of a
  character (\<^verbatim>\<open>indexOf\<close>, \<^verbatim>\<open>lastIndexOf\<close>), the span from the first \<open>{\<close> to the
  last \<open>}\<close>, the length of the tags rendered with \<^verbatim>\<open>join(", ")\<close>, and being a
  non-empty string.
\<close>

definition indexOf :: "jschar \<Rightarrow> jsstring \<Rightarrow> nat option" where
  "indexOf c s = (if c \<in> set s then Some (length (takeWhile (\<lambda>x. x \<noteq> c) s)) else None)"

definition lastIndexOf :: "jschar \<Rightarrow> jsstring \<Rightarrow> nat option" where
  "lastIndexOf c s =
     (if c \<in> set s then Some (length s - Suc (length (takeWhile (\<lambda>x. x \<noteq> c) (rev s))))
      else None)"

definition greedySpan :: "jsstring \<Rightarrow> jsstring option" where
  "greedySpan s =
     (case indexOf 0x7B s of
        None \<Rightarrow> None
      | Some i \<Rightarrow>
          (case lastIndexOf 0x7D s of
             None \<Rightarrow> None
           | Some j \<Rightarrow> if i < j then Some (drop i (take (Suc j) s)) else None))"

definition joinedLength :: "jsstring list \<Rightarrow> int" where
  "joinedLength ts = int (length (join (js '', '') ts))"

fun isNonEmptyString :: "jsval \<Rightarrow> bool" where
  "isNonEmptyString (JStr s) = (s \<noteq> [])"
| "isNonEmptyString v = False"

text \<open>
  What the loop compares with the limit at the tag of index \<open>k\<close>: the rendered length of the
  tags before it, the separator cost (0 for the first tag, 2 for a later one) and its length.
\<close>

definition costAt :: "jsstring list \<Rightarrow> nat \<Rightarrow> int" where
  "costAt ts k = joinedLength (take k ts) + (if k = 0 then 0 else 2) + int (length (ts ! k))"

text \<open>
  The normal form of a tag: every character of the class \<^verbatim>\<open>[#\s]\<close> in it is a space that
  is not followed by another character of the class (so there is no \<open>#\<close>, no other
  whitespace and no run of spaces), and it neither starts nor ends with whitespace.
\<close>

fun singleSpaced :: "jsstring \<Rightarrow> bool" where
  "singleSpaced [] = True"
| "singleSpaced (c # cs) =
     ((isHashOrSpace c \<longrightarrow> c = 0x20 \<and> (case cs of [] \<Rightarrow> True | d # ds \<Rightarrow> \<not> isHashOrSpace d))
      \<and> singleSpaced cs)"

definition normalTag :: "jsstring \<Rightarrow> bool" where
  "normalTag t \<longleftrightarrow>
     singleSpaced t \<and> (t \<noteq> [] \<longrightarrow> \<not> isWhiteSpace (hd t) \<and> \<not> isWhiteSpace (last t))"

text \<open>
  A runtime for concrete runs: \<^verbatim>\<open>JSON.parse\<close> is given by a finite table (it throws on
  every other text), the comparison is that of the language.
\<close>

definition tableRuntime :: "(jsstring \<times> jsval) list \<Rightarrow> runtime" where
  "tableRuntime tab = \<lparr>JSON_parse = map_of tab, coerce_gt = jsGreater\<rparr>"

text \<open>The output size as the specification writes it, in exact arithmetic.\<close>

definition specOutputSize :: "int \<Rightarrow> int \<Rightarrow> int" where
  "specOutputSize titleLimit descriptionLimit =
     max 512 (\<lceil>(of_int (descriptionLimit + titleLimit) :: rat) / 2\<rceil> + 256)"

text \<open>Scenario A of the specification: the completion, its JSON object, and the value it denotes.\<close>

definition scenarioA_json :: jsstring where
  \<open>scenarioA_json = js ''{"title":"A cat on a mat","description":"A small orange cat sits on a blue mat in a sunlit room.","tags":["cat","mat","indoor","pet"]}''\<close>

definition scenarioA_text :: jsstring where
  "scenarioA_text = js ''Sure! '' @ scenarioA_json @ js '' Hope that helps!''"

definition scenarioA_value :: jsval where
  "scenarioA_value =
     JObj [(js ''title'', JStr (js ''A cat on a mat'')),
           (js ''description'', JStr (js ''A small orange cat sits on a blue mat in a sunlit room.'')),
           (js ''tags'', JArr [JStr (js ''cat''), JStr (js ''mat''), JStr (js ''indoor''), JStr (js ''pet'')])]"

text \<open>Scenario C: an object without \<open>tags\<close>.\<close>

definition scenarioC_text :: jsstring where
  \<open>scenarioC_text = js ''{"title":"X","description":"Y"}''\<close>

definition scenarioC_value :: jsval where
  "scenarioC_value = JObj [(js ''title'', JStr (js ''X'')), (js ''description'', JStr (js ''Y''))]"

text \<open>A completion whose object has a number as its title.\<close>

definition numericTitle_text :: jsstring where
  \<open>numericTitle_text = js ''{"title":5,"description":"D","tags":[]}''\<close>

definition numericTitle_value :: jsval where
  "numericTitle_value =
     JObj [(js ''title'', JNum (Finite 5)), (js ''description'', JStr (js ''D'')),
           (js ''tags'', JArr [])]"

text \<open>A request body with the given image and limits, for concrete runs.\<close>

definition exampleBody :: "jsval \<Rightarrow> int \<Rightarrow> int \<Rightarrow> int \<Rightarrow> request_body" where
  "exampleBody img t d g =
     \<lparr>image = img, mimeType = JStr (js ''image/png''),
      titleLength = t, descriptionLength = d, tagsLength = g\<rparr>"

section \<open>The JSON extractor\<close>

lemma length_takeWhile_lt:
  "x \<in> set xs \<Longrightarrow> \<not> P x \<Longrightarrow> length (takeWhile P xs) < length xs"
  by (induction xs) auto

lemma indexOf_Nil: "indexOf x [] = None"
  by (simp add: indexOf_def)

lemma indexOf_Cons:
  "indexOf x (c # cs) = (if c = x then Some 0 else map_option Suc (indexOf x cs))"
  by (simp add: indexOf_def)

lemma lastIndexOf_Nil: "lastIndexOf x [] = None"
  by (simp add: lastIndexOf_def)

lemma lastIndexOf_Cons:
  "lastIndexOf x (c # cs) =
     (case lastIndexOf x cs of Some j \<Rightarrow> Some (Suc j) | None \<Rightarrow> if c = x then Some 0 else None)"
proof (cases "x \<in> set cs")
  case True
  then have "length (takeWhile (\<lambda>y. y \<noteq> x) (rev cs)) < length cs"
    using length_takeWhile_lt [of x "rev cs" "\<lambda>y. y \<noteq> x"] by simp
  with True show ?thesis
    by (simp add: lastIndexOf_def Suc_diff_Suc)
next
  case False
  then have "takeWhile (\<lambda>y. y \<noteq> x) (rev cs @ [c]) = rev cs @ takeWhile (\<lambda>y. y \<noteq> x) [c]"
    by (intro takeWhile_append2) auto
  then have "length (takeWhile (\<lambda>y. y \<noteq> x) (rev cs @ [c])) = length cs + (if c = x then 0 else 1)"
    by simp
  with False show ?thesis
    by (cases "c = x") (simp_all add: lastIndexOf_def)
qed

text \<open>\<open>indexOf\<close> is the first occurrence.\<close>

lemma indexOf_first:
  "indexOf c s = Some i \<longleftrightarrow> i < length s \<and> s ! i = c \<and> (\<forall>k<i. s ! k \<noteq> c)"
proof (induction s arbitrary: i)
  case Nil
  show ?case by (simp add: indexOf_Nil)
next
  case (Cons a s)
  show ?case
  proof (cases i)
    case 0
    then show ?thesis by (auto simp: indexOf_Cons)
  next
    case (Suc n)
    then show ?thesis
      using Cons [of n]
      by (auto simp: indexOf_Cons less_Suc_eq_0_disj All_less_Suc2)
  qed
qed

text \<open>The backtracking of the star ends the match at the last \<open>}\<close>.\<close>

lemma starThenClose_eq:
  "starThenClose cs =
     (case lastIndexOf 0x7D cs of None \<Rightarrow> None | Some j \<Rightarrow> Some (take (Suc j) cs))"
  by (induction cs) (simp_all add: lastIndexOf_Nil lastIndexOf_Cons split: option.splits)

lemma jsonMatch_greedySpan: "jsonMatch s = greedySpan s"
proof (induction s)
  case Nil
  show ?case by (simp add: greedySpan_def indexOf_Nil)
next
  case (Cons c cs)
  show ?case
  proof (cases "c = 0x7B")
    case True
    then show ?thesis
      using Cons
      by (simp add: greedySpan_def indexOf_Cons lastIndexOf_Cons starThenClose_eq
               split: option.splits)
  next
    case False
    then show ?thesis
      using Cons
      by (auto simp add: greedySpan_def indexOf_Cons lastIndexOf_Cons
               split: option.splits)
  qed
qed

lemma greedySpan_None: "0x7B \<notin> set s \<or> 0x7D \<notin> set s \<Longrightarrow> greedySpan s = None"
  by (auto simp: greedySpan_def indexOf_def lastIndexOf_def)

lemma lastIndexOf_None: "lastIndexOf c s = None \<longleftrightarrow> c \<notin> set s"
  by (simp add: lastIndexOf_def)

text \<open>\<open>lastIndexOf\<close> is the last occurrence.\<close>

lemma lastIndexOf_last:
  "lastIndexOf c s = Some j \<longleftrightarrow>
     j < length s \<and> s ! j = c \<and> (\<forall>k. j < k \<and> k < length s \<longrightarrow> s ! k \<noteq> c)"
proof (induction s arbitrary: j)
  case Nil
  show ?case by (simp add: lastIndexOf_Nil)
next
  case (Cons a s)
  show ?case
  proof (cases j)
    case 0
    have A: "(\<forall>k. 0 < k \<and> k < length (a # s) \<longrightarrow> (a # s) ! k \<noteq> c) \<longleftrightarrow> c \<notin> set s"
      by (auto simp: in_set_conv_nth gr0_conv_Suc)
    have B: "lastIndexOf c (a # s) = Some 0 \<longleftrightarrow> c \<notin> set s \<and> a = c"
      by (cases "lastIndexOf c s")
         (simp_all add: lastIndexOf_Cons lastIndexOf_None [symmetric])
    have C: "0 < length (a # s) \<and> (a # s) ! 0 = c \<longleftrightarrow> a = c"
      by simp
    show ?thesis
      unfolding 0 B using A C by blast
  next
    case (Suc n)
    have A: "(\<forall>k. Suc n < k \<and> k < length (a # s) \<longrightarrow> (a # s) ! k \<noteq> c)
          \<longleftrightarrow> (\<forall>k. n < k \<and> k < length s \<longrightarrow> s ! k \<noteq> c)" (is "?L \<longleftrightarrow> ?R")
    proof
      assume l: ?L
      show ?R
      proof (intro allI impI)
        fix k assume "n < k \<and> k < length s"
        then have "Suc n < Suc k \<and> Suc k < length (a # s)" by simp
        with l have "(a # s) ! Suc k \<noteq> c" by blast
        then show "s ! k \<noteq> c" by simp
      qed
    next
      assume r: ?R
      show ?L
      proof (intro allI impI)
        fix k assume k: "Suc n < k \<and> k < length (a # s)"
        then obtain k' where k': "k = Suc k'" by (cases k) auto
        with k have "n < k' \<and> k' < length s" by simp
        with r have "s ! k' \<noteq> c" by blast
        with k' show "(a # s) ! k \<noteq> c" by simp
      qed
    qed
    have B: "lastIndexOf c (a # s) = Some (Suc n) \<longleftrightarrow> lastIndexOf c s = Some n"
      by (cases "lastIndexOf c s") (simp_all add: lastIndexOf_Cons)
    have C: "Suc n < length (a # s) \<and> (a # s) ! Suc n = c \<longleftrightarrow> n < length s \<and> s ! n = c"
      by simp
    show ?thesis
      unfolding Suc B Cons [of n] using A C by blast
  qed
qed
lemma scenarioA_match: "jsonMatch scenarioA_text = Some scenarioA_json"
  by (simp add: scenarioA_text_def scenarioA_json_def js_def)

text \<open>
  What follows the parse depends on the runtime only through the comparison it provides.
\<close>

lemma fitField_runtime:
  assumes "coerce_gt rt' = coerce_gt rt"
  shows "fitField rt' v L = fitField rt v L"
proof (cases v)
  case (JObj kvs)
  show ?thesis
    unfolding JObj fitField.simps assms ..
qed simp_all

lemma validateAndFit_runtime:
  assumes "coerce_gt rt' = coerce_gt rt"
  shows "validateAndFit rt' g a b c = validateAndFit rt g a b c"
proof -
  have F: "\<And>t d ts. fieldFitter rt' t d ts a b c = fieldFitter rt t d ts a b c"
    unfolding fieldFitter_def fitField_runtime [OF assms] ..
  show ?thesis
    unfolding validateAndFit_def F ..
qed

text \<open>
  Claim C7. The regular expression matches the span from the first \<open>{\<close> to the last \<open>}\<close> of
  the completion (\<open>greedySpan\<close>; no brace balancing), and that span is the text handed to
  \<^verbatim>\<open>JSON.parse\<close>: when the parse of the span throws, the handler throws its parse error;
  when it returns a value, the handler goes on with that value; and the outcome does not
  depend on what \<^verbatim>\<open>JSON.parse\<close> does on any other text. A completion without \<open>{\<close> or
  without \<open>}\<close> makes the handler throw its error for an invalid response format, whatever
  \<^verbatim>\<open>JSON.parse\<close> is.
\<close>

theorem C7_json_extractor:
  "jsonMatch s = greedySpan s \<and>
   shapeCompletion rt s a b c =
     (case greedySpan s of
        None \<Rightarrow> Inl InvalidResponseFormat
      | Some m \<Rightarrow>
          (case JSON_parse rt m of
             None \<Rightarrow> Inl FailedToParse
           | Some g \<Rightarrow> validateAndFit rt g a b c)) \<and>
   (0x7B \<notin> set s \<or> 0x7D \<notin> set s \<longrightarrow> shapeCompletion rt s a b c = Inl InvalidResponseFormat) \<and>
   (\<forall>m. greedySpan s = Some m \<and> JSON_parse rt m = None
      \<longrightarrow> shapeCompletion rt s a b c = Inl FailedToParse) \<and>
   (\<forall>m g. greedySpan s = Some m \<and> JSON_parse rt m = Some g
      \<longrightarrow> shapeCompletion rt s a b c = validateAndFit rt g a b c) \<and>
   (\<forall>rt'. coerce_gt rt' = coerce_gt rt \<and>
          (\<forall>m. greedySpan s = Some m \<longrightarrow> JSON_parse rt' m = JSON_parse rt m)
      \<longrightarrow> shapeCompletion rt' s a b c = shapeCompletion rt s a b c)"
proof -
  have unfold: "\<And>r. shapeCompletion r s a b c =
     (case greedySpan s of
        None \<Rightarrow> Inl InvalidResponseFormat
      | Some m \<Rightarrow>
          (case JSON_parse r m of
             None \<Rightarrow> Inl FailedToParse
           | Some g \<Rightarrow> validateAndFit r g a b c))"
    unfolding shapeCompletion_def parseAndFit_def jsonMatch_greedySpan ..
  have none: "0x7B \<notin> set s \<or> 0x7D \<notin> set s \<longrightarrow> shapeCompletion rt s a b c = Inl InvalidResponseFormat"
    by (simp add: shapeCompletion_def jsonMatch_greedySpan greedySpan_None)
  have fail: "\<forall>m. greedySpan s = Some m \<and> JSON_parse rt m = None
      \<longrightarrow> shapeCompletion rt s a b c = Inl FailedToParse"
    by (simp add: unfold)
  have ok: "\<forall>m g. greedySpan s = Some m \<and> JSON_parse rt m = Some g
      \<longrightarrow> shapeCompletion rt s a b c = validateAndFit rt g a b c"
    by (simp add: unfold)
  have only: "\<forall>rt'. coerce_gt rt' = coerce_gt rt \<and>
          (\<forall>m. greedySpan s = Some m \<longrightarrow> JSON_parse rt' m = JSON_parse rt m)
      \<longrightarrow> shapeCompletion rt' s a b c = shapeCompletion rt s a b c"
  proof (intro allI impI)
    fix rt' :: runtime
    assume h: "coerce_gt rt' = coerce_gt rt \<and>
          (\<forall>m. greedySpan s = Some m \<longrightarrow> JSON_parse rt' m = JSON_parse rt m)"
    then have "coerce_gt rt' = coerce_gt rt" ..
    then have v: "\<And>g. validateAndFit rt' g a b c = validateAndFit rt g a b c"
      by (rule validateAndFit_runtime)
    show "shapeCompletion rt' s a b c = shapeCompletion rt s a b c"
    proof (cases "greedySpan s")
      case None
      then show ?thesis by (simp add: unfold)
    next
      case (Some m)
      with h have "JSON_parse rt' m = JSON_parse rt m" by simp
      with Some v show ?thesis by (simp add: unfold split: option.splits)
    qed
  qed
  show ?thesis
  proof (intro conjI)
    show "jsonMatch s = greedySpan s"
      by (rule jsonMatch_greedySpan)
    show "shapeCompletion rt s a b c =
     (case greedySpan s of
        None \<Rightarrow> Inl InvalidResponseFormat
      | Some m \<Rightarrow>
          (case JSON_parse rt m of
             None \<Rightarrow> Inl FailedToParse
           | Some g \<Rightarrow> validateAndFit rt g a b c))"
      by (rule unfold)
  qed (rule none fail ok only)+
qed

theorem C7_json_extractor_witness:
  "jsonMatch scenarioA_text = Some scenarioA_json \<and>
   greedySpan scenarioA_text = Some scenarioA_json \<and>
   shapeCompletion (tableRuntime []) (js ''I cannot see the image.'') 20 40 20
     = Inl InvalidResponseFormat \<and>
   shapeCompletion (tableRuntime []) scenarioA_text 20 40 20 = Inl FailedToParse \<and>
   shapeCompletion (tableRuntime [(scenarioA_json, scenarioA_value)]) scenarioA_text 20 40 20
     = validateAndFit (tableRuntime [(scenarioA_json, scenarioA_value)]) scenarioA_value 20 40 20 \<and>
   shapeCompletion (tableRuntime [(scenarioA_json, scenarioA_value), (scenarioC_text, scenarioC_value)])
       scenarioA_text 20 40 20
     = shapeCompletion (tableRuntime [(scenarioA_json, scenarioA_value)]) scenarioA_text 20 40 20"
proof -
  let ?rtA = "tableRuntime [(scenarioA_json, scenarioA_value)]"
  let ?rtAC = "tableRuntime [(scenarioA_json, scenarioA_value), (scenarioC_text, scenarioC_value)]"
  have a: "0x7B \<notin> set (js ''I cannot see the image.'') \<or>
           0x7D \<notin> set (js ''I cannot see the image.'')"
    by (simp add: js_def)
  have b: "jsonMatch scenarioA_text = Some scenarioA_json"
    by (simp add: scenarioA_text_def scenarioA_json_def js_def)
  note N = C7_json_extractor [of "js ''I cannot see the image.''" "tableRuntime []" 20 40 20]
  note A = C7_json_extractor [of scenarioA_text "tableRuntime []" 20 40 20]
  note B = C7_json_extractor [of scenarioA_text ?rtA 20 40 20]
  have c: "shapeCompletion (tableRuntime []) (js ''I cannot see the image.'') 20 40 20
           = Inl InvalidResponseFormat"
    using a N [THEN conjunct2, THEN conjunct2, THEN conjunct1] by (rule rev_mp)
  have g: "greedySpan scenarioA_text = Some scenarioA_json"
    using b A [THEN conjunct1] by simp
  have pN: "JSON_parse (tableRuntime []) scenarioA_json = None"
    by (simp add: tableRuntime_def)
  have d: "shapeCompletion (tableRuntime []) scenarioA_text 20 40 20 = Inl FailedToParse"
    using A [THEN conjunct2, THEN conjunct2, THEN conjunct2, THEN conjunct1, THEN spec,
             of scenarioA_json] g pN
    by simp
  have pA: "JSON_parse ?rtA scenarioA_json = Some scenarioA_value"
    by (simp add: tableRuntime_def)
  have e: "shapeCompletion ?rtA scenarioA_text 20 40 20
             = validateAndFit ?rtA scenarioA_value 20 40 20"
    using B [THEN conjunct2, THEN conjunct2, THEN conjunct2, THEN conjunct2, THEN conjunct1,
             THEN spec, THEN spec, of scenarioA_json scenarioA_value] g pA
    by simp
  have cg: "coerce_gt ?rtAC = coerce_gt ?rtA"
    by (simp add: tableRuntime_def)
  have ps: "\<forall>m. greedySpan scenarioA_text = Some m \<longrightarrow> JSON_parse ?rtAC m = JSON_parse ?rtA m"
    by (simp add: g tableRuntime_def)
  have f: "shapeCompletion ?rtAC scenarioA_text 20 40 20
             = shapeCompletion ?rtA scenarioA_text 20 40 20"
    using B [THEN conjunct2, THEN conjunct2, THEN conjunct2, THEN conjunct2, THEN conjunct2,
             THEN spec, of ?rtAC] cg ps
    by (simp only: simp_thms)
  from b g c d e f show ?thesis by simp
qed

section \<open>The tag accumulation\<close>

lemma length_join_snoc:
  "length (join sep (xs @ [x])) = length (join sep xs) + (if xs = [] then 0 else length sep) + length x"
  by (induction sep xs rule: join.induct) auto

lemma joinedLength_snoc:
  "joinedLength (xs @ [x]) = joinedLength xs + (if xs = [] then 0 else 2) + int (length x)"
  by (simp add: joinedLength_def length_join_snoc js_def)

lemma joinedLength_Nil: "joinedLength [] = 0"
  by (simp add: joinedLength_def)

text \<open>
  The loop invariant, for the loop started in any state it can reach: \<open>acc\<close> holds the tags
  admitted so far, the index is their number and the running length their rendered length.
\<close>

lemma accumulate_greedy:
  "prefix acc (accumulate L (length acc) rest acc (joinedLength acc)) \<and>
   prefix (accumulate L (length acc) rest acc (joinedLength acc)) (acc @ rest) \<and>
   (\<forall>k. length acc \<le> k \<and> k < length (accumulate L (length acc) rest acc (joinedLength acc))
        \<longrightarrow> costAt (acc @ rest) k \<le> L) \<and>
   (length (accumulate L (length acc) rest acc (joinedLength acc)) < length (acc @ rest)
        \<longrightarrow> L < costAt (acc @ rest) (length (accumulate L (length acc) rest acc (joinedLength acc))))"
proof (induction rest arbitrary: acc)
  case Nil
  show ?case by simp
next
  case (Cons t rest)
  let ?c = "joinedLength acc + (if length acc = 0 then 0 else 2) + int (length t)"
  have cost: "costAt (acc @ t # rest) (length acc) = ?c"
    by (simp add: costAt_def)
  show ?case
  proof (cases "?c \<le> L")
    case False
    then have "accumulate L (length acc) (t # rest) acc (joinedLength acc) = acc"
      by (simp add: Let_def)
    with False cost show ?thesis by simp
  next
    case True
    have jl: "joinedLength (acc @ [t]) = ?c"
      by (simp add: joinedLength_snoc)
    have step: "accumulate L (length acc) (t # rest) acc (joinedLength acc)
                = accumulate L (length (acc @ [t])) rest (acc @ [t]) (joinedLength (acc @ [t]))"
      using True by (simp add: Let_def jl)
    have ih: "prefix (acc @ [t]) (accumulate L (length (acc @ [t])) rest (acc @ [t]) (joinedLength (acc @ [t]))) \<and>
   prefix (accumulate L (length (acc @ [t])) rest (acc @ [t]) (joinedLength (acc @ [t]))) ((acc @ [t]) @ rest) \<and>
   (\<forall>k. length (acc @ [t]) \<le> k \<and> k < length (accumulate L (length (acc @ [t])) rest (acc @ [t]) (joinedLength (acc @ [t])))
        \<longrightarrow> costAt ((acc @ [t]) @ rest) k \<le> L) \<and>
   (length (accumulate L (length (acc @ [t])) rest (acc @ [t]) (joinedLength (acc @ [t]))) < length ((acc @ [t]) @ rest)
        \<longrightarrow> L < costAt ((acc @ [t]) @ rest) (length (accumulate L (length (acc @ [t])) rest (acc @ [t]) (joinedLength (acc @ [t])))))"
      by (rule Cons.IH)
    define out where "out = accumulate L (length (acc @ [t])) rest (acc @ [t]) (joinedLength (acc @ [t]))"
    from ih have p1: "prefix (acc @ [t]) out" and p2: "prefix out (acc @ t # rest)"
      and p3: "\<forall>k. Suc (length acc) \<le> k \<and> k < length out \<longrightarrow> costAt (acc @ t # rest) k \<le> L"
      and p4: "length out < length (acc @ t # rest) \<longrightarrow> L < costAt (acc @ t # rest) (length out)"
      by (simp_all add: out_def)
    from p1 have q1: "prefix acc out"
      using append_prefixD by blast
    have q3: "\<forall>k. length acc \<le> k \<and> k < length out \<longrightarrow> costAt (acc @ t # rest) k \<le> L"
    proof (intro allI impI)
      fix k assume k: "length acc \<le> k \<and> k < length out"
      show "costAt (acc @ t # rest) k \<le> L"
      proof (cases "k = length acc")
        case True
        with cost \<open>?c \<le> L\<close> show ?thesis by simp
      next
        case False
        with k p3 show ?thesis by simp
      qed
    qed
    from q1 p2 q3 p4 show ?thesis
      unfolding step out_def [symmetric] by simp
  qed
qed


lemma scenarioA_fit:
  "JSON_parse rt scenarioA_json = Some scenarioA_value \<Longrightarrow>
   parseAndFit rt scenarioA_json 20 40 20 =
     Inr \<lparr>title = JStr (js ''A cat on a mat''),
          description = JStr (js ''A small orange cat sits on a blue mat...''),
          tags = [js ''cat'', js ''mat'', js ''indoor'']\<rparr>"
  by (simp add: parseAndFit_def validateAndFit_def scenarioA_value_def getProp_def js_def invalidStructure_def
        fieldFitter_def substring0_def finalTags_def normalizedTags_def normalizeTag_def
        trim_def isWhiteSpace_def isHashOrSpace_def)

text \<open>
  Claim C2. The tags kept are a prefix of the normalized tags, in their order: each tag kept
  satisfied running length + separator cost + its length \<open>\<le>\<close> the limit (separator cost 0 at
  index 0 and 2 after), and when a tag is left out, it is the first one that failed this test
  and every later tag is left out with it, whatever its length. On the completion of
  Scenario A with limits (20, 40, 20) the tags are cat, mat, indoor.
\<close>

theorem C2_tag_greedy_prefix:
  "finalTags L raw = take (length (finalTags L raw)) (normalizedTags raw) \<and>
   (\<forall>k < length (finalTags L raw). costAt (normalizedTags raw) k \<le> L) \<and>
   (length (finalTags L raw) < length (normalizedTags raw)
      \<longrightarrow> L < costAt (normalizedTags raw) (length (finalTags L raw))) \<and>
   (JSON_parse rt scenarioA_json = Some scenarioA_value \<longrightarrow>
      shapeCompletion rt scenarioA_text 20 40 20 =
        Inr \<lparr>title = JStr (js ''A cat on a mat''),
             description = JStr (js ''A small orange cat sits on a blue mat...''),
             tags = [js ''cat'', js ''mat'', js ''indoor'']\<rparr>)"
proof -
  define out where "out = finalTags L raw"
  have out: "out = accumulate L (length ([] :: jsstring list)) (normalizedTags raw) [] (joinedLength [])"
    by (simp add: out_def finalTags_def joinedLength_Nil)
  have g: "prefix out ([] @ normalizedTags raw) \<and>
     (\<forall>k. length ([] :: jsstring list) \<le> k \<and> k < length out \<longrightarrow> costAt ([] @ normalizedTags raw) k \<le> L) \<and>
     (length out < length ([] @ normalizedTags raw) \<longrightarrow> L < costAt ([] @ normalizedTags raw) (length out))"
    unfolding out using accumulate_greedy [of "[]" L "normalizedTags raw"] by blast
  then obtain zs where "normalizedTags raw = out @ zs"
    by (auto simp: prefix_def)
  then have "out = take (length out) (normalizedTags raw)"
    by simp
  with g have law: "out = take (length out) (normalizedTags raw) \<and>
   (\<forall>k < length out. costAt (normalizedTags raw) k \<le> L) \<and>
   (length out < length (normalizedTags raw) \<longrightarrow> L < costAt (normalizedTags raw) (length out))"
    by simp
  have scen: "JSON_parse rt scenarioA_json = Some scenarioA_value \<longrightarrow>
      shapeCompletion rt scenarioA_text 20 40 20 =
        Inr \<lparr>title = JStr (js ''A cat on a mat''),
             description = JStr (js ''A small orange cat sits on a blue mat...''),
             tags = [js ''cat'', js ''mat'', js ''indoor'']\<rparr>"
    by (simp add: shapeCompletion_def scenarioA_match scenarioA_fit)
  from law scen show ?thesis
    unfolding out_def by blast
qed

theorem C2_tag_greedy_prefix_witness:
  "finalTags 20 [JStr (js ''cat''), JStr (js ''mat''), JStr (js ''indoor''), JStr (js ''pet'')]
     = [js ''cat'', js ''mat'', js ''indoor''] \<and>
   costAt [js ''cat'', js ''mat'', js ''indoor'', js ''pet''] 2 = 16 \<and>
   costAt [js ''cat'', js ''mat'', js ''indoor'', js ''pet''] 3 = 21 \<and>
   shapeCompletion (tableRuntime [(scenarioA_json, scenarioA_value)]) scenarioA_text 20 40 20 =
     Inr \<lparr>title = JStr (js ''A cat on a mat''),
          description = JStr (js ''A small orange cat sits on a blue mat...''),
          tags = [js ''cat'', js ''mat'', js ''indoor'']\<rparr>"
proof -
  have p: "JSON_parse (tableRuntime [(scenarioA_json, scenarioA_value)]) scenarioA_json
           = Some scenarioA_value"
    by (simp add: tableRuntime_def)
  have n: "normalizedTags [JStr (js ''cat''), JStr (js ''mat''), JStr (js ''indoor''), JStr (js ''pet'')]
           = [js ''cat'', js ''mat'', js ''indoor'', js ''pet'']"
    by (simp add: normalizedTags_def normalizeTag_def trim_def isWhiteSpace_def isHashOrSpace_def js_def)
  have f: "finalTags 20 [JStr (js ''cat''), JStr (js ''mat''), JStr (js ''indoor''), JStr (js ''pet'')]
     = [js ''cat'', js ''mat'', js ''indoor'']"
    by (simp add: finalTags_def n) (simp add: js_def)
  have c2: "costAt [js ''cat'', js ''mat'', js ''indoor'', js ''pet''] 2 = 16"
    by (simp add: costAt_def joinedLength_def js_def)
  have c3: "costAt [js ''cat'', js ''mat'', js ''indoor'', js ''pet''] 3 = 21"
    by (simp add: costAt_def joinedLength_def js_def numeral_3_eq_3)
  from p f c2 c3
    C2_tag_greedy_prefix [of 20 "[JStr (js ''cat''), JStr (js ''mat''), JStr (js ''indoor''), JStr (js ''pet'')]"
      "tableRuntime [(scenarioA_json, scenarioA_value)]"]
  show ?thesis by blast
qed

section \<open>The endpoint\<close>

lemma ceiling_half: "\<lceil>(of_int x :: rat) / 2\<rceil> = (x + 1) div 2"
proof -
  have "\<lceil>(of_int x :: rat) / 2\<rceil> = \<lceil>(of_int x :: rat) / of_int 2\<rceil>" by simp
  also have "\<dots> = - ((- x) div 2)" by (rule ceiling_divide_eq_div)
  also have "\<dots> = (x + 1) div 2" by presburger
  finally show ?thesis .
qed

lemma bitlen_eq:
  assumes "2 ^ n \<le> x" and "x < 2 ^ Suc n"
  shows "bitlen x = int (Suc n)"
proof -
  have "x < 2 ^ nat (int (Suc n))"
    using assms(2) by (simp only: nat_int)
  then have "bitlen x \<le> int (Suc n)"
    by (simp only: bitlen_le_iff_power) simp
  moreover have "2 ^ (nat (int (Suc n)) - 1) \<le> x"
    using assms(1) by (simp only: nat_int diff_Suc_1)
  then have "int (Suc n) \<le> bitlen x"
    by (simp only: bitlen_ge_iff_power) simp
  ultimately show ?thesis by simp
qed

lemma bitlen_pos: "0 < a \<Longrightarrow> 1 \<le> bitlen a"
  using bitlen_eq_zero_iff [of a] bitlen_nonneg [of a] by linarith

lemma floorLog2_int:
  assumes "0 < a"
  shows "floorLog2 (of_int a) = bitlen a - 1"
proof -
  have b: "2 ^ nat (bitlen a - 1) \<le> a"
    using bitlen_bounds [OF assms] by simp
  have p: "1 \<le> bitlen a"
    using assms by (rule bitlen_pos)
  have "bitlen 1 = 1"
    using bitlen_eq [of 0 1] by simp
  moreover have "pow2 (bitlen a - 1) \<le> of_int a"
  proof -
    have "(of_int (2 ^ nat (bitlen a - 1)) :: rat) \<le> of_int a"
      using b by (simp only: of_int_le_iff)
    with p show ?thesis by (simp add: pow2_def)
  qed
  ultimately show ?thesis
    by (simp add: floorLog2_def quotient_of_int)
qed

text \<open>An integer of magnitude at most \<open>2 ^ 53\<close> is a number: rounding leaves it as it is.\<close>

lemma roundBinary64_exact:
  assumes "\<bar>x\<bar> \<le> 2 ^ 53"
  shows "roundBinary64 (of_int x) = Finite (of_int x)"
proof (cases "x = 0")
  case True
  then show ?thesis by (simp add: roundBinary64_def)
next
  case False
  define a where "a = \<bar>x\<bar>"
  with False assms have a: "0 < a" "a \<le> 2 ^ 53" by simp_all
  define e where "e = bitlen a - 1"
  have e0: "0 \<le> e"
    using bitlen_pos [OF a(1)] by (simp add: e_def)
  have lo: "2 ^ nat e \<le> a"
    using bitlen_bounds [OF a(1)] by (simp add: e_def)
  have e53: "e \<le> 53"
  proof (rule ccontr)
    assume "\<not> e \<le> 53"
    then have "54 \<le> nat e" by simp
    then have "(2::int) ^ 54 \<le> 2 ^ nat e"
      by (intro power_increasing) simp_all
    with lo a(2) show False by simp
  qed
  have fl: "floorLog2 (of_int a) = e"
    using floorLog2_int [OF a(1)] by (simp add: e_def)
  obtain q :: int where q: "(of_int a :: rat) / pow2 (e - 52) = of_int q"
  proof (cases "e \<le> 52")
    case True
    then have "pow2 (e - 52) = 1 / 2 ^ nat (52 - e)"
      by (cases "e = 52") (simp_all add: pow2_def)
    then have "(of_int a :: rat) / pow2 (e - 52) = of_int (a * 2 ^ nat (52 - e))"
      by simp
    then show ?thesis using that by blast
  next
    case False
    with e53 have e: "e = 53" by simp
    with lo a(2) have "a = 2 ^ 53" by simp
    with e have "(of_int a :: rat) / pow2 (e - 52) = of_int (2 ^ 52)"
      by (simp add: pow2_def)
    then show ?thesis using that [of "2 ^ 52"] by simp
  qed
  have ulp: "pow2 (e - 52) \<noteq> 0"
    by (simp add: pow2_def)
  have qa: "(of_int q :: rat) * pow2 (e - 52) = of_int a"
    using q ulp by (simp add: field_simps)
  have small: "\<not> (2 :: rat) ^ 1024 \<le> of_int a"
  proof -
    have "a < 2 ^ 1024" using a(2) by simp
    then have "(of_int a :: rat) < of_int (2 ^ 1024)"
      by (simp only: of_int_less_iff)
    then show ?thesis by simp
  qed
  have mx: "max e (- 1022) = e"
    using e0 by simp
  have ax: "\<bar>of_int x :: rat\<bar> = of_int a"
    by (simp add: a_def)
  have sg: "(if (of_int x :: rat) < 0 then - of_int a else of_int a) = (of_int x :: rat)"
    by (simp add: a_def)
  have nz: "(of_int x :: rat) \<noteq> 0"
    using False by simp
  have "roundBinary64 (of_int x)
          = (if (2 :: rat) ^ 1024 \<le> of_int (if (1 :: rat) / 2 < 0 \<or> ((0 :: rat) = 1 / 2 \<and> odd q) then q + 1 else q) * pow2 (e - 52)
             then (if (of_int x :: rat) < 0 then NegInfinity else PosInfinity)
             else Finite (if (of_int x :: rat) < 0
                          then - (of_int (if (1 :: rat) / 2 < 0 \<or> ((0 :: rat) = 1 / 2 \<and> odd q) then q + 1 else q) * pow2 (e - 52))
                          else of_int (if (1 :: rat) / 2 < 0 \<or> ((0 :: rat) = 1 / 2 \<and> odd q) then q + 1 else q) * pow2 (e - 52)))"
    by (simp only: roundBinary64_def Let_def ax fl mx q floor_of_int diff_self nz if_False)
  also have "\<dots> = Finite (of_int x)"
    using small sg by (cases "x < 0") (simp_all add: qa)
  finally show ?thesis .
qed

lemma specOutputSize_div: "specOutputSize t d = max 512 ((d + t + 1) div 2 + 256)"
  by (simp only: specOutputSize_def ceiling_half)

text \<open>Where both additions are exact, the code computes the formula.\<close>

lemma maxOutputTokens_exact:
  assumes "\<bar>t\<bar> + \<bar>d\<bar> \<le> 2 ^ 53"
  shows "generationConfig_maxOutputTokens t d = Finite (of_int (specOutputSize t d))"
proof -
  have 1: "roundBinary64 (of_int d + of_int t) = Finite (of_int (d + t))"
    using roundBinary64_exact [of "d + t"] assms by simp
  have "\<bar>(d + t + 1) div 2 + 256\<bar> \<le> 2 ^ 53"
    using assms by simp
  then have 2: "roundBinary64 (of_int ((d + t + 1) div 2) + 256)
                  = Finite (of_int ((d + t + 1) div 2 + 256))"
    using roundBinary64_exact [of "(d + t + 1) div 2 + 256"] by simp
  show ?thesis
    by (simp only: generationConfig_maxOutputTokens_def 1 jsnum.case ceiling_half 2
          specOutputSize_div)
       (simp add: max_def)
qed

text \<open>\<open>2 ^ 53 + 1\<close> is not a number: it lies halfway between two, and the tie goes down.\<close>

lemma roundBinary64_above: "roundBinary64 9007199254740993 = Finite 9007199254740992"
proof -
  have b: "bitlen 9007199254740993 = 54"
    using bitlen_eq [of 53 9007199254740993] by simp
  have f: "floorLog2 9007199254740993 = 53"
    using floorLog2_int [of 9007199254740993] b by simp
  have "\<lfloor>(of_int 9007199254740993 :: rat) / of_int 2\<rfloor> = 9007199254740993 div 2"
    by (rule floor_divide_of_int_eq)
  then have q: "\<lfloor>(9007199254740993 :: rat) / 2\<rfloor> = 4503599627370496"
    by simp
  show ?thesis
    by (simp add: roundBinary64_def Let_def f pow2_def q)
qed

lemma maxOutputTokens_above:
  "generationConfig_maxOutputTokens 2 9007199254740991 = Finite 4503599627370752"
proof -
  have 2: "roundBinary64 (of_int 4503599627370752) = Finite (of_int 4503599627370752)"
    by (rule roundBinary64_exact) simp
  show ?thesis
    using 2 by (simp add: generationConfig_maxOutputTokens_def roundBinary64_above)
qed

text \<open>
  Claim C10, as the specification states it, fails: the limits and the sum are numbers of
  the language, and for the integer limits 2 and \<open>2 ^ 53 - 1\<close> the sum \<open>2 ^ 53 + 1\<close> is rounded
  to \<open>2 ^ 53\<close>, so the value sent is 4503599627370752 where the formula gives
  4503599627370753.
\<close>

theorem C10_counterexample:
  "generationConfig_maxOutputTokens 2 9007199254740991 = Finite 4503599627370752 \<and>
   specOutputSize 2 9007199254740991 = 4503599627370753 \<and>
   map maxOutputTokens
     (fst (analyzeImage (tableRuntime []) (\<lambda>c. None)
            (Some (exampleBody (JStr (js ''aGVsbG8='')) 2 9007199254740991 60))))
     = [Finite 4503599627370752]"
  by (simp add: maxOutputTokens_above specOutputSize_div analyzeImage_def generateCall_def
        exampleBody_def js_def)

text \<open>
  Claim C10, amended. For integer limits with \<open>\<bar>titleLimit\<bar> + \<bar>descriptionLimit\<bar> \<le> 2 ^ 53\<close>,
  \<^verbatim>\<open>maxOutputTokens\<close> is \<open>max 512 (\<lceil>(descriptionLimit + titleLimit) / 2\<rceil> + 256)\<close>, the ceiling of
  the half being \<open>(descriptionLimit + titleLimit + 1) div 2\<close>. Every call the handler issues
  carries the value computed from the limits of the request and the temperature 0.9, and a
  request with an image issues exactly one call.
\<close>

theorem C10_generation_config:
  "(\<bar>t\<bar> + \<bar>d\<bar> \<le> 2 ^ 53 \<longrightarrow>
      generationConfig_maxOutputTokens t d = Finite (of_int (specOutputSize t d)) \<and>
      specOutputSize t d = max 512 ((d + t + 1) div 2 + 256)) \<and>
   (\<forall>c \<in> set (fst (analyzeImage rt gemini (Some b))).
      maxOutputTokens c = generationConfig_maxOutputTokens (titleLength b) (descriptionLength b) \<and>
      temperature c = 9 / 10) \<and>
   (\<bar>titleLength b\<bar> + \<bar>descriptionLength b\<bar> \<le> 2 ^ 53 \<longrightarrow>
      (\<forall>c \<in> set (fst (analyzeImage rt gemini (Some b))).
         maxOutputTokens c
           = Finite (of_int (max 512 ((descriptionLength b + titleLength b + 1) div 2 + 256))))) \<and>
   (truthy (image b) \<longrightarrow> length (fst (analyzeImage rt gemini (Some b))) = 1)"
proof (intro conjI impI)
  assume "\<bar>t\<bar> + \<bar>d\<bar> \<le> 2 ^ 53"
  then show "generationConfig_maxOutputTokens t d = Finite (of_int (specOutputSize t d))"
    by (rule maxOutputTokens_exact)
next
  show "specOutputSize t d = max 512 ((d + t + 1) div 2 + 256)"
    by (rule specOutputSize_div)
next
  show "\<forall>c \<in> set (fst (analyzeImage rt gemini (Some b))).
      maxOutputTokens c = generationConfig_maxOutputTokens (titleLength b) (descriptionLength b) \<and>
      temperature c = 9 / 10"
    by (simp add: analyzeImage_def generateCall_def)
next
  assume "\<bar>titleLength b\<bar> + \<bar>descriptionLength b\<bar> \<le> 2 ^ 53"
  then have "generationConfig_maxOutputTokens (titleLength b) (descriptionLength b)
      = Finite (of_int (max 512 ((descriptionLength b + titleLength b + 1) div 2 + 256)))"
    by (simp only: maxOutputTokens_exact specOutputSize_div)
  then show "\<forall>c \<in> set (fst (analyzeImage rt gemini (Some b))).
         maxOutputTokens c
           = Finite (of_int (max 512 ((descriptionLength b + titleLength b + 1) div 2 + 256)))"
    by (simp add: analyzeImage_def generateCall_def)
next
  assume "truthy (image b)"
  then show "length (fst (analyzeImage rt gemini (Some b))) = 1"
    by (simp add: analyzeImage_def)
qed

theorem C10_generation_config_witness:
  "generationConfig_maxOutputTokens 20 40 = Finite 512 \<and>
   generationConfig_maxOutputTokens 1000 2001 = Finite 1757 \<and>
   map maxOutputTokens (fst (analyzeImage (tableRuntime []) (\<lambda>c. None) (Some (exampleBody (JStr (js ''aGVsbG8='')) 1000 2001 60)))) = [Finite 1757] \<and>
   map temperature (fst (analyzeImage (tableRuntime []) (\<lambda>c. None) (Some (exampleBody (JStr (js ''aGVsbG8='')) 1000 2001 60)))) = [9 / 10]"
proof -
  let ?b = "exampleBody (JStr (js ''aGVsbG8='')) 1000 2001 60"
  let ?calls = "fst (analyzeImage (tableRuntime []) (\<lambda>c. None) (Some ?b))"
  have t: "truthy (image ?b)" by (simp add: exampleBody_def js_def)
  have l: "titleLength ?b = 1000" "descriptionLength ?b = 2001" by (simp_all add: exampleBody_def)
  have bd: "\<bar>titleLength ?b\<bar> + \<bar>descriptionLength ?b\<bar> \<le> 2 ^ 53"
    by (simp add: l)
  note inst = C10_generation_config [of 1000 2001 "tableRuntime []" "\<lambda>c. None" ?b]
  from inst t have len: "length ?calls = 1"
    by blast
  from inst bd have "\<forall>c \<in> set ?calls.
      maxOutputTokens c = Finite (of_int (max 512 ((descriptionLength ?b + titleLength ?b + 1) div 2 + 256)))"
    by blast
  then have mo: "\<forall>c \<in> set ?calls. maxOutputTokens c = Finite 1757"
    by (simp add: l)
  from inst have te: "\<forall>c \<in> set ?calls. temperature c = 9 / 10"
    by blast
  from inst have "generationConfig_maxOutputTokens 1000 2001 = Finite (of_int (specOutputSize 1000 2001))"
    and "specOutputSize 1000 2001 = max 512 ((2001 + 1000 + 1) div 2 + 256)"
    by simp_all
  then have a: "generationConfig_maxOutputTokens 1000 2001 = Finite 1757"
    by simp
  from C10_generation_config [of 20 40 "tableRuntime []" "\<lambda>c. None" ?b]
  have "generationConfig_maxOutputTokens 20 40 = Finite (of_int (specOutputSize 20 40))"
    and "specOutputSize 20 40 = max 512 ((40 + 20 + 1) div 2 + 256)"
    by simp_all
  then have b: "generationConfig_maxOutputTokens 20 40 = Finite 512"
    by simp
  from len mo te a b show ?thesis
    by (cases ?calls) auto
qed

text \<open>
  Claim C9. A request body without \<open>image\<close> is answered with status 400 and the error
  object, no call to the inference service is issued, and the response is not an analysis
  result.
\<close>

theorem C9_missing_image:
  "image b = JUndefined \<Longrightarrow>
   analyzeImage rt gemini (Some b) = ([], Status400 (js ''No image provided''))"
  by (simp add: analyzeImage_def)

theorem C9_missing_image_witness:
  "analyzeImage (tableRuntime [(scenarioA_json, scenarioA_value)]) (\<lambda>c. Some scenarioA_text)
     (Some (exampleBody JUndefined 20 40 20))
   = ([], Status400 (js ''No image provided''))"
  using C9_missing_image [of "exampleBody JUndefined 20 40 20"
     "tableRuntime [(scenarioA_json, scenarioA_value)]" "\<lambda>c. Some scenarioA_text"]
  by (simp add: exampleBody_def)

text \<open>
  Claim C8. For a request with an image the response always has the success status. When
  the call to the service fails, or the completion has no match, or the match does not
  parse, or the parsed value fails the structure check, the response is the fallback
  result: the fixed title and description put through the truncation of the field fitter,
  and the three fixed tags. A completion without \<open>{\<close> is such a case.
\<close>

theorem C8_fallback_on_failure:
  "truthy (image b) \<longrightarrow>
     (\<exists>r. snd (analyzeImage rt gemini (Some b)) = Status200 r) \<and>
     ((gemini (generateCall b) = None \<or>
       (\<exists>s. gemini (generateCall b) = Some s \<and>
          (jsonMatch s = None \<or>
           (\<exists>m. jsonMatch s = Some m \<and>
              (JSON_parse rt m = None \<or>
               (\<exists>g t d tg. JSON_parse rt m = Some g \<and> destructure g = Inr (t, d, tg) \<and>
                  invalidStructure t d tg))))))
      \<longrightarrow> snd (analyzeImage rt gemini (Some b))
            = Status200 (fallbackResult (titleLength b) (descriptionLength b))) \<and>
     (\<forall>s. gemini (generateCall b) = Some s \<and> 0x7B \<notin> set s
      \<longrightarrow> snd (analyzeImage rt gemini (Some b))
            = Status200 (fallbackResult (titleLength b) (descriptionLength b))) \<and>
     fitField rt (JStr (fallbackTitle (titleLength b))) (titleLength b)
       = Inr (title (fallbackResult (titleLength b) (descriptionLength b))) \<and>
     fitField rt (JStr fallbackDescription) (descriptionLength b)
       = Inr (description (fallbackResult (titleLength b) (descriptionLength b))) \<and>
     tags (fallbackResult (titleLength b) (descriptionLength b))
       = [js ''Image Analysis'', js ''Visual Processing'', js ''AI Detection'']"
proof (intro impI conjI)
  assume img: "truthy (image b)"
  show "\<exists>r. snd (analyzeImage rt gemini (Some b)) = Status200 r"
    using img by (simp add: analyzeImage_def split: option.splits sum.splits)
  show "\<forall>s. gemini (generateCall b) = Some s \<and> 0x7B \<notin> set s
      \<longrightarrow> snd (analyzeImage rt gemini (Some b))
            = Status200 (fallbackResult (titleLength b) (descriptionLength b))"
    using img
    by (auto simp: analyzeImage_def shapeCompletion_def jsonMatch_greedySpan greedySpan_None)
  show "fitField rt (JStr (fallbackTitle (titleLength b))) (titleLength b)
       = Inr (title (fallbackResult (titleLength b) (descriptionLength b)))"
    by (simp add: fallbackTruncate_def fallbackResult_def)
  show "fitField rt (JStr fallbackDescription) (descriptionLength b)
       = Inr (description (fallbackResult (titleLength b) (descriptionLength b)))"
    by (simp add: fallbackTruncate_def fallbackResult_def)
  show "tags (fallbackResult (titleLength b) (descriptionLength b))
       = [js ''Image Analysis'', js ''Visual Processing'', js ''AI Detection'']"
    by (simp add: fallbackResult_def fallbackTags_def)
next
  assume img: "truthy (image b)"
  assume "gemini (generateCall b) = None \<or>
       (\<exists>s. gemini (generateCall b) = Some s \<and>
          (jsonMatch s = None \<or>
           (\<exists>m. jsonMatch s = Some m \<and>
              (JSON_parse rt m = None \<or>
               (\<exists>g t d tg. JSON_parse rt m = Some g \<and> destructure g = Inr (t, d, tg) \<and>
                  invalidStructure t d tg)))))"
  then show "snd (analyzeImage rt gemini (Some b))
            = Status200 (fallbackResult (titleLength b) (descriptionLength b))"
    using img
    by (auto simp: analyzeImage_def shapeCompletion_def parseAndFit_def validateAndFit_def)
qed
theorem C8_fallback_on_failure_witness:
  "snd (analyzeImage (tableRuntime []) (\<lambda>c. Some (js ''I cannot see the image.''))
          (Some (exampleBody (JStr (js ''aGVsbG8='')) 20 40 20)))
     = Status200 \<lparr>title = JStr (js ''Image Analysis (A...''),
          description = JStr (js ''The image has been processed and anal...''),
          tags = [js ''Image Analysis'', js ''Visual Processing'', js ''AI Detection'']\<rparr> \<and>
   snd (analyzeImage (tableRuntime []) (\<lambda>c. None)
          (Some (exampleBody (JStr (js ''aGVsbG8='')) 20 40 20)))
     = Status200 (fallbackResult 20 40) \<and>
   snd (analyzeImage (tableRuntime [(scenarioC_text, scenarioC_value)]) (\<lambda>c. Some scenarioC_text)
          (Some (exampleBody (JStr (js ''aGVsbG8='')) 20 40 20)))
     = Status200 (fallbackResult 20 40)"
proof -
  let ?b = "exampleBody (JStr (js ''aGVsbG8='')) 20 40 20"
  have img: "truthy (image ?b)"
    by (simp add: exampleBody_def js_def)
  have l: "titleLength ?b = 20" "descriptionLength ?b = 40"
    by (simp_all add: exampleBody_def)
  have nob: "0x7B \<notin> set (js ''I cannot see the image.'')"
    by (simp add: js_def)
  have fb: "fallbackResult 20 40
     = \<lparr>title = JStr (js ''Image Analysis (A...''),
          description = JStr (js ''The image has been processed and anal...''),
          tags = [js ''Image Analysis'', js ''Visual Processing'', js ''AI Detection'']\<rparr>"
    by (simp add: fallbackResult_def fallbackTruncate_def fallbackTitle_def
          fallbackDescription_def fallbackTags_def substring0_def js_def)
  have mC: "jsonMatch scenarioC_text = Some scenarioC_text"
    by (simp add: scenarioC_text_def js_def)
  have pC: "JSON_parse (tableRuntime [(scenarioC_text, scenarioC_value)]) scenarioC_text
            = Some scenarioC_value"
    by (simp add: tableRuntime_def)
  have dC: "destructure scenarioC_value = Inr (JStr (js ''X''), JStr (js ''Y''), JUndefined)"
    by (simp add: scenarioC_value_def getProp_def js_def)
  have vC: "invalidStructure (JStr (js ''X'')) (JStr (js ''Y'')) JUndefined"
    by (simp add: invalidStructure_def)
  have 1: "snd (analyzeImage (tableRuntime []) (\<lambda>c. Some (js ''I cannot see the image.'')) (Some ?b))
           = Status200 (fallbackResult 20 40)"
    using C8_fallback_on_failure [of ?b "tableRuntime []" "\<lambda>c. Some (js ''I cannot see the image.'')"]
      img nob l by simp
  have 2: "snd (analyzeImage (tableRuntime []) (\<lambda>c. None) (Some ?b))
           = Status200 (fallbackResult 20 40)"
    using C8_fallback_on_failure [of ?b "tableRuntime []" "\<lambda>c. None"] img l by simp
  have 3: "snd (analyzeImage (tableRuntime [(scenarioC_text, scenarioC_value)])
                  (\<lambda>c. Some scenarioC_text) (Some ?b))
           = Status200 (fallbackResult 20 40)"
    using C8_fallback_on_failure [of ?b "tableRuntime [(scenarioC_text, scenarioC_value)]"
        "\<lambda>c. Some scenarioC_text"] img l mC pC dC vC
    by simp
  from 1 2 3 fb show ?thesis by simp
qed

section \<open>Validation\<close>

text \<open>
  Claim C5, as the specification states it, fails: the guard tests truthiness, not the type.
  A title that is the number 5 is not a non-empty string and passes, and the response then
  carries the number as its title.
\<close>

theorem C5_counterexample:
  "\<not> isNonEmptyString (JNum (Finite 5)) \<and>
   \<not> invalidStructure (JNum (Finite 5)) (JStr (js ''D'')) (JArr []) \<and>
   shapeCompletion (tableRuntime [(numericTitle_text, numericTitle_value)]) numericTitle_text 20 40 20
     = Inr \<lparr>title = JNum (Finite 5), description = JStr (js ''D''), tags = []\<rparr>"
  by (simp add: invalidStructure_def shapeCompletion_def parseAndFit_def validateAndFit_def tableRuntime_def
        numericTitle_text_def numericTitle_value_def getProp_def fieldFitter_def finalTags_def
        normalizedTags_def js_def)

text \<open>
  Claim C5, amended. The structure check fails exactly when the title is falsy (undefined,
  null, false, 0 or the empty string), or the description is falsy, or \<open>tags\<close> is not an
  array. For a title and a description that are strings it fails exactly when one of them
  is empty or \<open>tags\<close> is not an array. After a successful parse and destructuring, the handler
  throws its invalid-structure error exactly when the check fails.
\<close>

theorem C5_validation:
  "(invalidStructure t d tg \<longleftrightarrow>
      t \<in> {JUndefined, JNull, JBool False, JNum (Finite 0), JStr []} \<or>
      d \<in> {JUndefined, JNull, JBool False, JNum (Finite 0), JStr []} \<or>
      (\<forall>xs. tg \<noteq> JArr xs)) \<and>
   (invalidStructure (JStr s) (JStr s') tg \<longleftrightarrow> s = [] \<or> s' = [] \<or> (\<forall>xs. tg \<noteq> JArr xs)) \<and>
   (JSON_parse rt m = Some g \<and> destructure g = Inr (t, d, tg) \<longrightarrow>
      (parseAndFit rt m a b c = Inl InvalidResponseStructure \<longleftrightarrow> invalidStructure t d tg))"
proof -
  have tr: "\<And>v. truthy v \<longleftrightarrow> v \<notin> {JUndefined, JNull, JBool False, JNum (Finite 0), JStr []}"
    subgoal for v by (cases v) auto
    done
  have ar: "\<And>v. isArray v \<longleftrightarrow> (\<exists>xs. v = JArr xs)"
    subgoal for v by (cases v) auto
    done
  have ff: "\<And>v L. fitField rt v L \<noteq> Inl InvalidResponseStructure"
    subgoal for v L
      by (cases v) (auto split: option.splits jsval.splits jsnum.splits if_splits bool.splits)
    done
  have 1: "invalidStructure t d tg \<longleftrightarrow>
      t \<in> {JUndefined, JNull, JBool False, JNum (Finite 0), JStr []} \<or>
      d \<in> {JUndefined, JNull, JBool False, JNum (Finite 0), JStr []} \<or>
      (\<forall>xs. tg \<noteq> JArr xs)"
    unfolding invalidStructure_def tr ar by blast
  have 2: "invalidStructure (JStr s) (JStr s') tg \<longleftrightarrow> s = [] \<or> s' = [] \<or> (\<forall>xs. tg \<noteq> JArr xs)"
    unfolding invalidStructure_def ar by simp
  have 3: "JSON_parse rt m = Some g \<and> destructure g = Inr (t, d, tg) \<longrightarrow>
      (parseAndFit rt m a b c = Inl InvalidResponseStructure \<longleftrightarrow> invalidStructure t d tg)"
    using ff
    by (auto simp: parseAndFit_def validateAndFit_def fieldFitter_def invalidStructure_def
          split: jsval.splits sum.splits)
  from 1 2 3 show ?thesis by blast
qed
theorem C5_validation_witness:
  "invalidStructure (JStr (js ''X'')) (JStr (js ''Y'')) JUndefined \<and>
   invalidStructure (JStr []) (JStr (js ''Y'')) (JArr []) \<and>
   invalidStructure (JNum (Finite 0)) (JStr (js ''Y'')) (JArr []) \<and>
   parseAndFit (tableRuntime [(scenarioC_text, scenarioC_value)]) scenarioC_text 20 40 20
     = Inl InvalidResponseStructure"
proof -
  have pC: "JSON_parse (tableRuntime [(scenarioC_text, scenarioC_value)]) scenarioC_text
            = Some scenarioC_value"
    by (simp add: tableRuntime_def)
  have dC: "destructure scenarioC_value = Inr (JStr (js ''X''), JStr (js ''Y''), JUndefined)"
    by (simp add: scenarioC_value_def getProp_def js_def)
  have 1: "invalidStructure (JStr (js ''X'')) (JStr (js ''Y'')) JUndefined"
    and 4: "parseAndFit (tableRuntime [(scenarioC_text, scenarioC_value)]) scenarioC_text 20 40 20
            = Inl InvalidResponseStructure"
    using pC dC
      C5_validation [where t = "JStr (js ''X'')" and d = "JStr (js ''Y'')" and tg = JUndefined
        and s = "js ''X''" and s' = "js ''Y''" and m = scenarioC_text and g = scenarioC_value
        and rt = "tableRuntime [(scenarioC_text, scenarioC_value)]" and a = 20 and b = 40 and c = 20]
    by simp_all
  have 2: "invalidStructure (JStr []) (JStr (js ''Y'')) (JArr [])"
    using C5_validation [where t = "JStr []" and d = "JStr (js ''Y'')" and tg = "JArr []"
        and s = "[]" and s' = "js ''Y''"]
    by simp
  have 3: "invalidStructure (JNum (Finite 0)) (JStr (js ''Y'')) (JArr [])"
    using C5_validation [where t = "JNum (Finite 0)" and d = "JStr (js ''Y'')" and tg = "JArr []"]
    by simp
  from 1 2 3 4 show ?thesis by simp
qed

section \<open>Length limits\<close>

lemma fitField_length:
  assumes "fitField rt v L = Inr (JStr s)" and "3 \<le> L"
  shows "int (length s) \<le> L"
proof (cases v)
  case (JStr s0)
  with assms show ?thesis
    by (auto simp: substring0_def js_def split: if_splits)
next
  case (JObj kvs)
  with assms show ?thesis
    by (auto split: option.splits jsval.splits jsnum.splits if_splits bool.splits)
qed (use assms in \<open>auto split: if_splits\<close>)

lemma accumulate_joinedLength:
  "joinedLength acc \<le> L \<Longrightarrow>
   joinedLength (accumulate L (length acc) rest acc (joinedLength acc)) \<le> L"
proof (induction rest arbitrary: acc)
  case Nil
  then show ?case by simp
next
  case (Cons t rest)
  show ?case
  proof (cases "joinedLength acc + (if length acc = 0 then 0 else 2) + int (length t) \<le> L")
    case False
    with Cons.prems show ?thesis by (simp add: Let_def)
  next
    case True
    have jl: "joinedLength (acc @ [t]) = joinedLength acc + (if length acc = 0 then 0 else 2) + int (length t)"
      by (simp add: joinedLength_snoc)
    with True have "joinedLength (acc @ [t]) \<le> L" by simp
    from Cons.IH [OF this] True show ?thesis
      by (simp add: Let_def jl)
  qed
qed

lemma finalTags_joinedLength: "0 \<le> L \<Longrightarrow> joinedLength (finalTags L raw) \<le> L"
  using accumulate_joinedLength [of "[]" L "normalizedTags raw"]
  by (simp add: finalTags_def joinedLength_Nil)

lemma fieldFitter_within_limits:
  assumes "fieldFitter rt t d ts limT limD limG = Inr r" and "3 \<le> limT" and "3 \<le> limD" and "0 \<le> limG"
  shows "(\<forall>s. title r = JStr s \<longrightarrow> int (length s) \<le> limT) \<and>
         (\<forall>s. description r = JStr s \<longrightarrow> int (length s) \<le> limD) \<and>
         joinedLength (tags r) \<le> limG"
proof -
  from assms(1) obtain ft fd where ft: "fitField rt t limT = Inr ft" and fd: "fitField rt d limD = Inr fd"
    and r: "r = \<lparr>title = ft, description = fd, tags = finalTags limG ts\<rparr>"
    by (auto simp: fieldFitter_def split: sum.splits)
  show ?thesis
    using fitField_length [of rt t limT _, OF _ assms(2)] fitField_length [of rt d limD _, OF _ assms(3)]
      finalTags_joinedLength [OF assms(4)] ft fd r
    by auto
qed

lemma fallbackTruncate_length: "3 \<le> L \<Longrightarrow> int (length (fallbackTruncate s L)) \<le> L"
  by (auto simp: fallbackTruncate_def substring0_def js_def)

lemma fallbackTags_joinedLength: "joinedLength fallbackTags = 47"
  by (simp add: fallbackTags_def joinedLength_def js_def)

lemma shapeCompletion_within_limits:
  assumes "shapeCompletion rt s limT limD limG = Inr r" and "3 \<le> limT" and "3 \<le> limD" and "0 \<le> limG"
  shows "(\<forall>s. title r = JStr s \<longrightarrow> int (length s) \<le> limT) \<and>
         (\<forall>s. description r = JStr s \<longrightarrow> int (length s) \<le> limD) \<and>
         joinedLength (tags r) \<le> limG"
proof -
  from assms(1) obtain t d ts where "fieldFitter rt t d ts limT limD limG = Inr r"
    by (auto simp: shapeCompletion_def parseAndFit_def validateAndFit_def
          split: option.splits sum.splits if_splits jsval.splits prod.splits)
  from fieldFitter_within_limits [OF this assms(2-4)] show ?thesis .
qed

text \<open>
  Claim C1 at the request limits (1, 40, 20) and the title \<open>ab\<close>: the title is longer than
  the limit 1, so it is replaced by \<^verbatim>\<open>substring(0, -2) + '...'\<close>, which is \<open>...\<close>, of length 3.
  The comment above the code reads "Ensure length limits are respected"; for limits below 3
  they are not. (For limits from 3 on they are: \<open>fieldFitter_within_limits\<close>.)
\<close>

theorem C1_limit_exceeded:
  "fieldFitter rt (JStr (js ''ab'')) (JStr (js ''D'')) [] 1 40 20
     = Inr \<lparr>title = JStr (js ''...''), description = JStr (js ''D''), tags = []\<rparr> \<and>
   int (length (js ''ab'')) = 2 \<and> int (length (js ''...'')) = 3"
  by (simp add: fieldFitter_def substring0_def finalTags_def normalizedTags_def js_def)

section \<open>Normal form of the tags\<close>

lemma head_dropWhile: "case dropWhile P cs of [] \<Rightarrow> True | d # ds \<Rightarrow> \<not> P d"
  by (induction cs) auto

lemma replaceHashSpace_keeps_head:
  "(case xs of [] \<Rightarrow> True | d # ds \<Rightarrow> \<not> isHashOrSpace d) \<Longrightarrow>
   (case replaceHashSpace xs of [] \<Rightarrow> True | d # ds \<Rightarrow> \<not> isHashOrSpace d)"
  by (cases xs) auto

lemma replaceHashSpace_head:
  "case replaceHashSpace (dropWhile isHashOrSpace cs) of [] \<Rightarrow> True | d # ds \<Rightarrow> \<not> isHashOrSpace d"
  by (rule replaceHashSpace_keeps_head) (rule head_dropWhile)

lemma singleSpaced_replaceHashSpace: "singleSpaced (replaceHashSpace s)"
proof (induction s rule: replaceHashSpace.induct)
  case 1
  show ?case by simp
next
  case (2 c cs)
  show ?case
  proof (cases "isHashOrSpace c")
    case True
    with 2 replaceHashSpace_head [of cs] show ?thesis by simp
  next
    case False
    with 2 show ?thesis by simp
  qed
qed

lemma singleSpaced_append_right: "singleSpaced (xs @ ys) \<Longrightarrow> singleSpaced ys"
  by (induction xs) auto

lemma singleSpaced_append_left: "singleSpaced (xs @ ys) \<Longrightarrow> singleSpaced xs"
proof (induction xs)
  case Nil
  show ?case by simp
next
  case (Cons x xs)
  then show ?case
    by (cases xs) (auto split: list.splits)
qed

lemma trim_decompose:
  "dropWhile isWhiteSpace s
     = trim s @ rev (takeWhile isWhiteSpace (rev (dropWhile isWhiteSpace s)))"
proof -
  define u where "u = dropWhile isWhiteSpace s"
  have "rev (takeWhile isWhiteSpace (rev u) @ dropWhile isWhiteSpace (rev u)) = u"
    by (simp only: takeWhile_dropWhile_id rev_rev_ident)
  then have "u = rev (dropWhile isWhiteSpace (rev u)) @ rev (takeWhile isWhiteSpace (rev u))"
    by (simp only: rev_append)
  then show ?thesis
    by (simp only: u_def trim_def)
qed

lemma singleSpaced_trim:
  assumes "singleSpaced s"
  shows "singleSpaced (trim s)"
proof -
  have "s = takeWhile isWhiteSpace s @ dropWhile isWhiteSpace s"
    by simp
  with assms have "singleSpaced (dropWhile isWhiteSpace s)"
    using singleSpaced_append_right by metis
  then have "singleSpaced (trim s @ rev (takeWhile isWhiteSpace (rev (dropWhile isWhiteSpace s))))"
    using trim_decompose [of s] by simp
  then show ?thesis
    by (rule singleSpaced_append_left)
qed

lemma trim_ends:
  assumes "trim s \<noteq> []"
  shows "\<not> isWhiteSpace (hd (trim s)) \<and> \<not> isWhiteSpace (last (trim s))"
proof -
  define u where "u = dropWhile isWhiteSpace s"
  define v where "v = dropWhile isWhiteSpace (rev u)"
  have t: "trim s = rev v"
    by (simp only: trim_def u_def v_def)
  with assms have v: "v \<noteq> []" by simp
  have "case v of [] \<Rightarrow> True | d # ds \<Rightarrow> \<not> isWhiteSpace d"
    unfolding v_def by (rule head_dropWhile)
  with v have "\<not> isWhiteSpace (hd v)"
    by (cases v) simp_all
  with v t have l: "\<not> isWhiteSpace (last (trim s))"
    by (simp add: last_rev)
  have d: "u = trim s @ rev (takeWhile isWhiteSpace (rev u))"
    unfolding u_def by (rule trim_decompose)
  with assms have u: "u \<noteq> []" by auto
  have "case u of [] \<Rightarrow> True | d # ds \<Rightarrow> \<not> isWhiteSpace d"
    unfolding u_def by (rule head_dropWhile)
  with u have hu: "\<not> isWhiteSpace (hd u)"
    by (cases u) simp_all
  from d assms have "hd u = hd (trim s)"
    by (metis hd_append2)
  with hu l show ?thesis by simp
qed

lemma normalTag_normalizeTag: "normalTag (normalizeTag t)"
  using trim_ends [of "replaceHashSpace t"]
  by (simp add: normalTag_def normalizeTag_def singleSpaced_trim singleSpaced_replaceHashSpace)

lemma replaceHashSpace_fixed: "singleSpaced t \<Longrightarrow> replaceHashSpace t = t"
proof (induction t)
  case Nil
  show ?case by simp
next
  case (Cons c cs)
  then have ih: "replaceHashSpace cs = cs" by simp
  show ?case
  proof (cases "isHashOrSpace c")
    case False
    with ih show ?thesis by simp
  next
    case True
    with Cons.prems have c: "c = 0x20" and nx: "case cs of [] \<Rightarrow> True | d # ds \<Rightarrow> \<not> isHashOrSpace d"
      by simp_all
    from nx have "dropWhile isHashOrSpace cs = cs"
      by (cases cs) simp_all
    with True c ih show ?thesis by simp
  qed
qed

lemma trim_fixed:
  assumes "t \<noteq> [] \<longrightarrow> \<not> isWhiteSpace (hd t) \<and> \<not> isWhiteSpace (last t)"
  shows "trim t = t"
proof (cases "t = []")
  case True
  then show ?thesis by (simp add: trim_def)
next
  case False
  with assms have h: "\<not> isWhiteSpace (hd t)" and l: "\<not> isWhiteSpace (last t)" by simp_all
  from h have 1: "dropWhile isWhiteSpace t = t"
    by (simp only: dropWhile_eq_self_iff) simp
  from l False have "\<not> isWhiteSpace (hd (rev t))"
    by (simp add: hd_rev)
  then have 2: "dropWhile isWhiteSpace (rev t) = rev t"
    by (simp only: dropWhile_eq_self_iff) simp
  show ?thesis
    by (simp only: trim_def 1 2 rev_rev_ident)
qed

lemma normalizeTag_fixed: "normalTag t \<Longrightarrow> normalizeTag t = t"
  by (simp add: normalTag_def normalizeTag_def replaceHashSpace_fixed trim_fixed)

lemma normalizeTag_idem: "normalizeTag (normalizeTag t) = normalizeTag t"
  by (rule normalizeTag_fixed) (rule normalTag_normalizeTag)

lemma normalTag_no_hash: "normalTag t \<Longrightarrow> 0x23 \<notin> set t"
proof -
  have "singleSpaced t \<Longrightarrow> 0x23 \<notin> set t"
    by (induction t) (auto simp: isHashOrSpace_def)
  then show "normalTag t \<Longrightarrow> 0x23 \<notin> set t"
    by (simp add: normalTag_def)
qed
text \<open>Every tag of a result is in normal form; it may be empty.\<close>

lemma finalTags_subset: "set (finalTags L raw) \<subseteq> set (normalizedTags raw)"
proof -
  have "prefix (accumulate L (length ([] :: jsstring list)) (normalizedTags raw) [] (joinedLength []))
          ([] @ normalizedTags raw)"
    using accumulate_greedy [of "[]" L "normalizedTags raw"] by blast
  then have "prefix (finalTags L raw) (normalizedTags raw)"
    by (simp add: finalTags_def joinedLength_Nil)
  then show ?thesis
    by (rule set_mono_prefix)
qed

lemma finalTags_normalTag: "t \<in> set (finalTags L raw) \<Longrightarrow> normalTag t"
proof -
  assume "t \<in> set (finalTags L raw)"
  with finalTags_subset have "t \<in> set (normalizedTags raw)" by blast
  then show "normalTag t"
    by (auto simp: normalizedTags_def normalTag_normalizeTag)
qed

lemma filterTags_strings: "\<forall>t \<in> set ts. trim t \<noteq> [] \<Longrightarrow> filterTags (map JStr ts) = ts"
  by (induction ts) simp_all

lemma normalizedTags_fixed:
  assumes "\<forall>t \<in> set ts. normalTag t \<and> t \<noteq> []"
  shows "normalizedTags (map JStr ts) = ts"
proof -
  from assms have "\<forall>t \<in> set ts. trim t \<noteq> []"
    by (auto simp: normalTag_def trim_fixed)
  then have "filterTags (map JStr ts) = ts"
    by (rule filterTags_strings)
  moreover from assms have "map normalizeTag ts = ts"
    by (intro map_idI) (simp add: normalizeTag_fixed)
  ultimately show ?thesis
    by (simp add: normalizedTags_def)
qed

lemma accumulate_extends: "\<exists>zs. accumulate L n rest acc cur = acc @ zs"
proof (induction rest arbitrary: n acc cur)
  case Nil
  show ?case by simp
next
  case (Cons t rest)
  show ?case
  proof (cases "cur + (if n = 0 then 0 else 2) + int (length t) \<le> L")
    case False
    then show ?thesis by (simp add: Let_def)
  next
    case True
    from Cons [of "Suc n" "acc @ [t]" "cur + (if n = 0 then 0 else 2) + int (length t)"]
    obtain zs where "accumulate L (Suc n) rest (acc @ [t])
        (cur + (if n = 0 then 0 else 2) + int (length t)) = (acc @ [t]) @ zs"
      by blast
    with True show ?thesis by (simp add: Let_def)
  qed
qed

lemma accumulate_again:
  "accumulate L n (drop (length acc) (accumulate L n rest acc cur)) acc cur
     = accumulate L n rest acc cur"
proof (induction rest arbitrary: n acc cur)
  case Nil
  show ?case by simp
next
  case (Cons t rest)
  let ?c = "cur + (if n = 0 then 0 else 2) + int (length t)"
  show ?case
  proof (cases "?c \<le> L")
    case False
    then show ?thesis by (simp add: Let_def)
  next
    case True
    define out where "out = accumulate L (Suc n) rest (acc @ [t]) ?c"
    from True have step: "accumulate L n (t # rest) acc cur = out"
      by (simp add: Let_def out_def)
    obtain zs where zs: "out = (acc @ [t]) @ zs"
      unfolding out_def using accumulate_extends by blast
    then have d: "drop (length acc) out = t # drop (length (acc @ [t])) out"
      by simp
    have "accumulate L n (t # drop (length (acc @ [t])) out) acc cur
            = accumulate L (Suc n) (drop (length (acc @ [t])) out) (acc @ [t]) ?c"
      using True by (simp add: Let_def)
    also have "\<dots> = out"
      unfolding out_def by (rule Cons.IH)
    finally show ?thesis
      unfolding step d .
  qed
qed

lemma finalTags_idem:
  assumes "[] \<notin> set (finalTags L raw)"
  shows "finalTags L (map JStr (finalTags L raw)) = finalTags L raw"
proof -
  from assms have "\<forall>t \<in> set (finalTags L raw). normalTag t \<and> t \<noteq> []"
    using finalTags_normalTag by metis
  then have "normalizedTags (map JStr (finalTags L raw)) = finalTags L raw"
    by (rule normalizedTags_fixed)
  then have "finalTags L (map JStr (finalTags L raw))
               = accumulate L 0 (accumulate L 0 (normalizedTags raw) [] 0) [] 0"
    by (simp add: finalTags_def)
  also have "\<dots> = accumulate L 0 (normalizedTags raw) [] 0"
    using accumulate_again [of L 0 "[]" "normalizedTags raw" 0] by simp
  finally show ?thesis
    by (simp add: finalTags_def)
qed

lemma fitField_idem: "fitField rt (JStr s) L = Inr v \<Longrightarrow> fitField rt v L = Inr v"
  by (auto simp: substring0_def js_def split: if_splits)

lemma fieldFitter_idem:
  assumes "fieldFitter rt (JStr t) (JStr d) ts a b c = Inr r" and "[] \<notin> set (tags r)"
  shows "fieldFitter rt (title r) (description r) (map JStr (tags r)) a b c = Inr r"
proof -
  from assms(1) obtain ft fd where ft: "fitField rt (JStr t) a = Inr ft"
    and fd: "fitField rt (JStr d) b = Inr fd"
    and r: "r = \<lparr>title = ft, description = fd, tags = finalTags c ts\<rparr>"
    by (auto simp: fieldFitter_def split: sum.splits)
  from assms(2) r have "finalTags c (map JStr (finalTags c ts)) = finalTags c ts"
    by (simp add: finalTags_idem)
  with fitField_idem [OF ft] fitField_idem [OF fd] r show ?thesis
    by (simp add: fieldFitter_def)
qed

lemma finalTags_normal_form:
  assumes "t \<in> set (finalTags L raw)"
  shows "0x23 \<notin> set t \<and> (\<forall>c \<in> set t. isWhiteSpace c \<longrightarrow> c = 0x20) \<and> singleSpaced t \<and>
         (t \<noteq> [] \<longrightarrow> \<not> isWhiteSpace (hd t) \<and> \<not> isWhiteSpace (last t))"
proof -
  from assms have n: "normalTag t" by (rule finalTags_normalTag)
  have "singleSpaced t \<Longrightarrow> \<forall>c \<in> set t. isWhiteSpace c \<longrightarrow> c = 0x20"
    by (induction t) (auto simp: isHashOrSpace_def)
  with n normalTag_no_hash [OF n] show ?thesis
    by (simp add: normalTag_def)
qed
section \<open>Tags that are empty after normalization\<close>

text \<open>
  Claim C4 at the tags \<open>#\<close>, \<open>cat\<close>: the filter tests the raw tag (\<open>#\<close> is not empty after
  trimming) and runs before the replacement, which turns \<open>#\<close> into the empty string; the
  empty tag is kept in the result. (The rest of the normal form holds for every tag of a
  result: \<open>finalTags_normal_form\<close>.)
\<close>

theorem C4_empty_tag_kept:
  "normalizedTags [JStr (js ''#''), JStr (js ''cat'')] = [[], js ''cat''] \<and>
   finalTags 20 [JStr (js ''#''), JStr (js ''cat'')] = [[], js ''cat'']"
  by (simp add: finalTags_def normalizedTags_def normalizeTag_def trim_def
        isWhiteSpace_def isHashOrSpace_def js_def)

text \<open>
  Claim C3 at the tags \<open>#\<close>: the first fitting yields the one empty tag, and fitting that
  result again filters the empty tag out, so the second result differs from the first.
  (A result without an empty tag is returned unchanged: \<open>fieldFitter_idem\<close>.)
\<close>

theorem C3_refit_differs:
  "fieldFitter rt (JStr (js ''T'')) (JStr (js ''D'')) [JStr (js ''#'')] 20 40 20
     = Inr \<lparr>title = JStr (js ''T''), description = JStr (js ''D''), tags = [[]]\<rparr> \<and>
   fieldFitter rt (JStr (js ''T'')) (JStr (js ''D'')) (map JStr [[]]) 20 40 20
     = Inr \<lparr>title = JStr (js ''T''), description = JStr (js ''D''), tags = []\<rparr>"
  by (simp add: fieldFitter_def finalTags_def normalizedTags_def normalizeTag_def trim_def
        isWhiteSpace_def isHashOrSpace_def js_def)

section \<open>Invariants of every result\<close>

text \<open>
  Claim C6, as the specification states it, fails on the fallback path: the three fixed tags
  are not fitted, and rendered they have length 47, more than a tags limit of 20.
\<close>

theorem C6_counterexample:
  "snd (analyzeImage (tableRuntime []) (\<lambda>c. None) (Some (exampleBody (JStr (js ''aGVsbG8='')) 20 40 20)))
     = Status200 (fallbackResult 20 40) \<and>
   joinedLength (tags (fallbackResult 20 40)) = 47 \<and>
   \<not> joinedLength (tags (fallbackResult 20 40)) \<le> 20"
  by (simp add: analyzeImage_def exampleBody_def fallbackResult_def fallbackTags_joinedLength js_def)

text \<open>What a result of the success path is made of.\<close>

lemma shapeCompletion_result:
  assumes "shapeCompletion rt s a b c = Inr r"
  shows "\<exists>t d ts. fitField rt t a = Inr (title r) \<and> fitField rt d b = Inr (description r) \<and>
           tags r = finalTags c ts"
proof -
  from assms obtain t d ts where "fieldFitter rt t d ts a b c = Inr r"
    by (auto simp: shapeCompletion_def parseAndFit_def validateAndFit_def
          split: option.splits sum.splits if_splits jsval.splits prod.splits)
  then obtain ft fd where "fitField rt t a = Inr ft" and "fitField rt d b = Inr fd"
    and "r = \<lparr>title = ft, description = fd, tags = finalTags c ts\<rparr>"
    by (auto simp: fieldFitter_def split: sum.splits)
  then show ?thesis by auto
qed

lemma fallbackTags_normal: "\<forall>t \<in> set fallbackTags. normalTag t \<and> t \<noteq> []"
proof -
  have "map normalizeTag fallbackTags = fallbackTags"
    by (simp add: fallbackTags_def normalizeTag_def trim_def isWhiteSpace_def isHashOrSpace_def
          js_def)
  then have "\<forall>t \<in> set fallbackTags. normalizeTag t = t"
    by (metis map_eq_conv map_ident)
  then have "\<forall>t \<in> set fallbackTags. normalTag t"
    using normalTag_normalizeTag by metis
  moreover have "[] \<notin> set fallbackTags"
    by (simp add: fallbackTags_def js_def)
  ultimately show ?thesis by metis
qed

text \<open>
  Claim C6, amended. Every result sent with status 200, on either path, has all its tags in
  normal form (no \<open>#\<close>, whitespace only as single spaces, none leading or trailing); its title,
  when a string, is within the title limit if that limit is at least 3, and its description
  likewise. On the success path (the service answered and the completion was shaped into
  the result) the rendered tags are within the tags limit, for every tags limit from 0 on.
  On the fallback path (the call failed or the completion was rejected) the result is the
  fallback result: its tags are the three fixed labels, none empty, not fitted; their
  rendered length is 47, within the tags limit exactly when that limit is at least 47.
\<close>

theorem C6_result_invariants:
  "snd (analyzeImage rt gemini (Some b)) = Status200 r \<longrightarrow>
     (\<forall>t \<in> set (tags r). normalTag t) \<and>
     (3 \<le> titleLength b \<longrightarrow> (\<forall>s. title r = JStr s \<longrightarrow> int (length s) \<le> titleLength b)) \<and>
     (3 \<le> descriptionLength b \<longrightarrow>
        (\<forall>s. description r = JStr s \<longrightarrow> int (length s) \<le> descriptionLength b)) \<and>
     (((\<exists>s. gemini (generateCall b) = Some s \<and>
            shapeCompletion rt s (titleLength b) (descriptionLength b) (tagsLength b) = Inr r) \<and>
       (0 \<le> tagsLength b \<longrightarrow> joinedLength (tags r) \<le> tagsLength b))
      \<or>
      ((\<forall>s. gemini (generateCall b) = Some s \<longrightarrow>
            (\<exists>e. shapeCompletion rt s (titleLength b) (descriptionLength b) (tagsLength b) = Inl e)) \<and>
       r = fallbackResult (titleLength b) (descriptionLength b) \<and>
       tags r = fallbackTags \<and> [] \<notin> set (tags r) \<and> joinedLength (tags r) = 47 \<and>
       (joinedLength (tags r) \<le> tagsLength b \<longleftrightarrow> 47 \<le> tagsLength b)))"
proof
  assume resp: "snd (analyzeImage rt gemini (Some b)) = Status200 r"
  define inner where "inner =
    (case gemini (generateCall b) of
       None \<Rightarrow> Inl ApiError
     | Some s \<Rightarrow> shapeCompletion rt s (titleLength b) (descriptionLength b) (tagsLength b))"
  from resp have img: "truthy (image b)"
    by (auto simp: analyzeImage_def split: if_splits)
  with resp have r: "(case inner of Inr finalResult \<Rightarrow> finalResult
                       | Inl apiError \<Rightarrow> fallbackResult (titleLength b) (descriptionLength b)) = r"
    by (simp add: analyzeImage_def inner_def split: sum.splits)
  show "(\<forall>t \<in> set (tags r). normalTag t) \<and>
     (3 \<le> titleLength b \<longrightarrow> (\<forall>s. title r = JStr s \<longrightarrow> int (length s) \<le> titleLength b)) \<and>
     (3 \<le> descriptionLength b \<longrightarrow>
        (\<forall>s. description r = JStr s \<longrightarrow> int (length s) \<le> descriptionLength b)) \<and>
     (((\<exists>s. gemini (generateCall b) = Some s \<and>
            shapeCompletion rt s (titleLength b) (descriptionLength b) (tagsLength b) = Inr r) \<and>
       (0 \<le> tagsLength b \<longrightarrow> joinedLength (tags r) \<le> tagsLength b))
      \<or>
      ((\<forall>s. gemini (generateCall b) = Some s \<longrightarrow>
            (\<exists>e. shapeCompletion rt s (titleLength b) (descriptionLength b) (tagsLength b) = Inl e)) \<and>
       r = fallbackResult (titleLength b) (descriptionLength b) \<and>
       tags r = fallbackTags \<and> [] \<notin> set (tags r) \<and> joinedLength (tags r) = 47 \<and>
       (joinedLength (tags r) \<le> tagsLength b \<longleftrightarrow> 47 \<le> tagsLength b)))"
  proof (cases inner)
    case (Inr r')
    with r have rr: "r' = r" by simp
    from Inr obtain s where s: "gemini (generateCall b) = Some s"
      and sc: "shapeCompletion rt s (titleLength b) (descriptionLength b) (tagsLength b) = Inr r"
      unfolding rr by (auto simp: inner_def split: option.splits)
    from shapeCompletion_result [OF sc] obtain t d ts
      where ft: "fitField rt t (titleLength b) = Inr (title r)"
        and fd: "fitField rt d (descriptionLength b) = Inr (description r)"
        and tg: "tags r = finalTags (tagsLength b) ts"
      by blast
    have 1: "\<forall>t \<in> set (tags r). normalTag t"
      unfolding tg using finalTags_normalTag by blast
    have 2: "3 \<le> titleLength b \<longrightarrow> (\<forall>s. title r = JStr s \<longrightarrow> int (length s) \<le> titleLength b)"
      using fitField_length [of rt t "titleLength b"] ft by auto
    have 3: "3 \<le> descriptionLength b \<longrightarrow>
        (\<forall>s. description r = JStr s \<longrightarrow> int (length s) \<le> descriptionLength b)"
      using fitField_length [of rt d "descriptionLength b"] fd by auto
    have 4: "0 \<le> tagsLength b \<longrightarrow> joinedLength (tags r) \<le> tagsLength b"
      unfolding tg using finalTags_joinedLength by blast
    from s sc have 5: "\<exists>s. gemini (generateCall b) = Some s \<and>
            shapeCompletion rt s (titleLength b) (descriptionLength b) (tagsLength b) = Inr r"
      by blast
    from 1 2 3 4 5 show ?thesis by blast
  next
    case (Inl e)
    with r have rf: "r = fallbackResult (titleLength b) (descriptionLength b)" by simp
    have tg: "tags r = fallbackTags"
      by (simp add: rf fallbackResult_def)
    have 1: "\<forall>t \<in> set (tags r). normalTag t" and ne: "[] \<notin> set (tags r)"
      unfolding tg using fallbackTags_normal by blast+
    have 2: "3 \<le> titleLength b \<longrightarrow> (\<forall>s. title r = JStr s \<longrightarrow> int (length s) \<le> titleLength b)"
      using fallbackTruncate_length [of "titleLength b" "fallbackTitle (titleLength b)"]
      by (auto simp: rf fallbackResult_def)
    have 3: "3 \<le> descriptionLength b \<longrightarrow>
        (\<forall>s. description r = JStr s \<longrightarrow> int (length s) \<le> descriptionLength b)"
      using fallbackTruncate_length [of "descriptionLength b" fallbackDescription]
      by (auto simp: rf fallbackResult_def)
    have jl: "joinedLength (tags r) = 47"
      by (simp add: tg fallbackTags_joinedLength)
    from Inl have path: "\<forall>s. gemini (generateCall b) = Some s \<longrightarrow>
            (\<exists>e. shapeCompletion rt s (titleLength b) (descriptionLength b) (tagsLength b) = Inl e)"
      by (auto simp: inner_def split: option.splits)
    have 4: "(\<forall>s. gemini (generateCall b) = Some s \<longrightarrow>
            (\<exists>e. shapeCompletion rt s (titleLength b) (descriptionLength b) (tagsLength b) = Inl e)) \<and>
       r = fallbackResult (titleLength b) (descriptionLength b) \<and>
       tags r = fallbackTags \<and> [] \<notin> set (tags r) \<and> joinedLength (tags r) = 47 \<and>
       (joinedLength (tags r) \<le> tagsLength b \<longleftrightarrow> 47 \<le> tagsLength b)"
      using path rf tg ne jl by simp
    from 1 2 3 4 show ?thesis by blast
  qed
qed

theorem C6_result_invariants_witness:
  "snd (analyzeImage (tableRuntime [(scenarioA_json, scenarioA_value)]) (\<lambda>c. Some scenarioA_text)
          (Some (exampleBody (JStr (js ''aGVsbG8='')) 20 40 20)))
     = Status200 \<lparr>title = JStr (js ''A cat on a mat''),
          description = JStr (js ''A small orange cat sits on a blue mat...''),
          tags = [js ''cat'', js ''mat'', js ''indoor'']\<rparr> \<and>
   int (length (js ''A cat on a mat'')) \<le> 20 \<and>
   int (length (js ''A small orange cat sits on a blue mat...'')) \<le> 40 \<and>
   joinedLength [js ''cat'', js ''mat'', js ''indoor''] \<le> 20 \<and>
   normalTag (js ''cat'') \<and> normalTag (js ''mat'') \<and> normalTag (js ''indoor'') \<and>
   snd (analyzeImage (tableRuntime []) (\<lambda>c. None)
          (Some (exampleBody (JStr (js ''aGVsbG8='')) 120 600 60)))
     = Status200 (fallbackResult 120 600) \<and>
   joinedLength (tags (fallbackResult 120 600)) = 47 \<and>
   joinedLength (tags (fallbackResult 120 600)) \<le> 60 \<and>
   normalTag (js ''Image Analysis'') \<and> normalTag (js ''Visual Processing'') \<and>
   normalTag (js ''AI Detection'')"
proof -
  let ?b = "exampleBody (JStr (js ''aGVsbG8='')) 20 40 20"
  let ?rt = "tableRuntime [(scenarioA_json, scenarioA_value)]"
  let ?r = "\<lparr>title = JStr (js ''A cat on a mat''),
          description = JStr (js ''A small orange cat sits on a blue mat...''),
          tags = [js ''cat'', js ''mat'', js ''indoor'']\<rparr>"
  let ?b2 = "exampleBody (JStr (js ''aGVsbG8='')) 120 600 60"
  have l: "titleLength ?b = 20" "descriptionLength ?b = 40" "tagsLength ?b = 20"
    "truthy (image ?b)"
    by (simp_all add: exampleBody_def js_def)
  have l2: "titleLength ?b2 = 120" "descriptionLength ?b2 = 600" "tagsLength ?b2 = 60"
    "truthy (image ?b2)"
    by (simp_all add: exampleBody_def js_def)
  have p: "JSON_parse ?rt scenarioA_json = Some scenarioA_value"
    by (simp add: tableRuntime_def)
  have run: "snd (analyzeImage ?rt (\<lambda>c. Some scenarioA_text) (Some ?b)) = Status200 ?r"
    using l p by (simp add: analyzeImage_def shapeCompletion_def scenarioA_match scenarioA_fit)
  have nf: "?r \<noteq> fallbackResult 20 40"
    by (simp add: fallbackResult_def fallbackTags_def js_def)
  have run2: "snd (analyzeImage (tableRuntime []) (\<lambda>c. None) (Some ?b2))
                = Status200 (fallbackResult 120 600)"
    using l2 by (simp add: analyzeImage_def)
  note A = C6_result_invariants [of ?rt "\<lambda>c. Some scenarioA_text" ?b ?r, THEN mp, OF run]
  note F = C6_result_invariants [of "tableRuntime []" "\<lambda>c. None" ?b2 "fallbackResult 120 600",
             THEN mp, OF run2]
  from A have a1: "normalTag (js ''cat'') \<and> normalTag (js ''mat'') \<and> normalTag (js ''indoor'')"
    by simp
  from A l have a2: "int (length (js ''A cat on a mat'')) \<le> 20"
    and a3: "int (length (js ''A small orange cat sits on a blue mat...'')) \<le> 40"
    by simp_all
  from A [THEN conjunct2, THEN conjunct2, THEN conjunct2] nf l
  have a4: "joinedLength [js ''cat'', js ''mat'', js ''indoor''] \<le> 20"
    by auto
  have ft: "tags (fallbackResult 120 600) = fallbackTags"
    by (simp add: fallbackResult_def)
  from F have "\<forall>t \<in> set (tags (fallbackResult 120 600)). normalTag t"
    by (rule conjunct1)
  then have f1: "normalTag (js ''Image Analysis'') \<and> normalTag (js ''Visual Processing'') \<and>
             normalTag (js ''AI Detection'')"
    by (simp add: ft fallbackTags_def)
  from F [THEN conjunct2, THEN conjunct2, THEN conjunct2] l2
  have f2: "joinedLength (tags (fallbackResult 120 600)) = 47"
    and f3: "joinedLength (tags (fallbackResult 120 600)) \<le> 60"
    by auto
  from run a1 a2 a3 a4 run2 f1 f2 f3 show ?thesis
    by simp
qed

end
